theory Spec2Isabelle
  imports Complex_Main
begin

section \<open>Python strings\<close>

text \<open>
  A Python \<open>str\<close> is a sequence of Unicode code points and \<open>len\<close> counts code points.
  A code point is modelled as a natural number and a string as a list of them, so that
  \<open>length\<close> is \<open>len\<close>. String literals of the source are written as HOL strings and
  converted with \<open>ustr\<close>.
\<close>

type_synonym codepoint = nat
type_synonym pystr = "codepoint list"

definition ustr :: "string \<Rightarrow> pystr" where
  "ustr s = map of_char s"

definition NL :: pystr where
  "NL = [10]"

definition NLNL :: pystr where
  "NLNL = [10, 10]"

text \<open>
  \<open>str.isspace\<close> for one code point. The same test decides what \<open>str.strip()\<close> removes
  and what \<open>\s\<close> matches in a \<open>str\<close> pattern of the \<open>re\<close> module. The table is the one
  of CPython: the ASCII controls 9 to 13 and 28 to 31, the space, and the Unicode
  separators.
\<close>

definition isspace :: "codepoint \<Rightarrow> bool" where
  "isspace c \<longleftrightarrow>
     (9 \<le> c \<and> c \<le> 13) \<or> (28 \<le> c \<and> c \<le> 32) \<or> c = 133 \<or> c = 160 \<or> c = 5760 \<or>
     (8192 \<le> c \<and> c \<le> 8202) \<or> c = 8232 \<or> c = 8233 \<or> c = 8239 \<or> c = 8287 \<or> c = 12288"

text \<open>\<open>s.strip()\<close>, \<open>s.lstrip(chars)\<close> for a one-character \<open>chars\<close>, and \<open>sep.join(xs)\<close>.\<close>

definition py_strip :: "pystr \<Rightarrow> pystr" where
  "py_strip s = rev (dropWhile isspace (rev (dropWhile isspace s)))"

definition py_lstrip_char :: "codepoint \<Rightarrow> pystr \<Rightarrow> pystr" where
  "py_lstrip_char ch s = dropWhile (\<lambda>c. c = ch) s"

fun py_join :: "pystr \<Rightarrow> pystr list \<Rightarrow> pystr" where
  "py_join sep [] = []"
| "py_join sep [x] = x"
| "py_join sep (x # y # ys) = x @ sep @ py_join sep (y # ys)"

text \<open>
  \<open>s.split(sep)\<close>: a scan from the left that cuts at every occurrence of \<open>sep\<close> and resumes
  after it, so occurrences do not overlap. \<open>acc\<close> is the piece being read. Python raises
  \<open>ValueError\<close> for an empty separator; the source only passes the literals \<open>"\n"\<close> and
  \<open>"\n\n"\<close>, and the guard \<open>sep \<noteq> []\<close> keeps the scan total.
\<close>

function py_split_acc :: "pystr \<Rightarrow> pystr \<Rightarrow> pystr \<Rightarrow> pystr list" where
  "py_split_acc sep acc [] = [acc]"
| "py_split_acc sep acc (c # cs) =
     (if sep \<noteq> [] \<and> take (length sep) (c # cs) = sep
      then acc # py_split_acc sep [] (drop (length sep) (c # cs))
      else py_split_acc sep (acc @ [c]) cs)"
  by pat_completeness auto
termination
  by (relation "measure (\<lambda>(sep, acc, s). length s)") auto

definition py_split :: "pystr \<Rightarrow> pystr \<Rightarrow> pystr list" where
  "py_split sep s = py_split_acc sep [] s"

text \<open>
  \<open>s[:n]\<close> for a Python integer \<open>n\<close>: the first \<open>n\<close> items, or all but the last \<open>-n\<close>
  when \<open>n\<close> is negative.
\<close>

definition py_slice_to :: "int \<Rightarrow> 'a list \<Rightarrow> 'a list" where
  "py_slice_to n s = (if 0 \<le> n then take (nat n) s else take (length s - nat (- n)) s)"

section \<open>The normalizer: \<open>DocumentProcessor._clean_content\<close>\<close>

record document_processor =
  supported_formats :: "pystr list"
  max_content_length :: int

text \<open>The object as \<open>DocumentProcessor.__init__\<close> builds it.\<close>

definition DocumentProcessor :: document_processor where
  "DocumentProcessor =
     \<lparr>supported_formats = map ustr [''.pdf'', ''.txt'', ''.md'', ''.docx'', ''.csv''],
      max_content_length = 500000\<rparr>"

text \<open>
  \<open>\w\<close> in a \<open>str\<close> pattern matches the code points for which \<open>str.isalnum\<close> holds, and
  the underscore. Below 128 these are the ASCII letters and digits. Above, the answer is a
  table of the Unicode database of the interpreter, which is not part of the repository:
  it is the parameter \<open>ua\<close> of every function that depends on it.
\<close>

definition ascii_alnum :: "codepoint \<Rightarrow> bool" where
  "ascii_alnum c \<longleftrightarrow> (48 \<le> c \<and> c \<le> 57) \<or> (65 \<le> c \<and> c \<le> 90) \<or> (97 \<le> c \<and> c \<le> 122)"

definition isalnum :: "(codepoint \<Rightarrow> bool) \<Rightarrow> codepoint \<Rightarrow> bool" where
  "isalnum ua c = (if c < 128 then ascii_alnum c else ua c)"

definition is_word :: "(codepoint \<Rightarrow> bool) \<Rightarrow> codepoint \<Rightarrow> bool" where
  "is_word ua c \<longleftrightarrow> isalnum ua c \<or> c = 95"

text \<open>
  \<open>re.sub(r'\s+', ' ', content)\<close>: every maximal run of whitespace is replaced by one
  space (code point 32).
\<close>

function re_sub_spaces :: "pystr \<Rightarrow> pystr" where
  "re_sub_spaces [] = []"
| "re_sub_spaces (c # cs) =
     (if isspace c then 32 # re_sub_spaces (dropWhile isspace cs) else c # re_sub_spaces cs)"
  by pat_completeness auto
termination
  by (relation "measure length") (auto simp: length_dropWhile_le less_Suc_eq_le)

text \<open>
  \<open>re.sub(r'[^\w\s\.\,\;\:\!\?\-\(\)\[\]]', '', content)\<close>: every character outside the
  class is deleted, the others are kept in place.
\<close>

definition kept :: "(codepoint \<Rightarrow> bool) \<Rightarrow> codepoint \<Rightarrow> bool" where
  "kept ua c \<longleftrightarrow> is_word ua c \<or> isspace c \<or> c \<in> set (ustr ''.,;:!?-()[]'')"

definition re_sub_special :: "(codepoint \<Rightarrow> bool) \<Rightarrow> pystr \<Rightarrow> pystr" where
  "re_sub_special ua s = filter (kept ua) s"

text \<open>The content after the two substitutions, before the length limit.\<close>

definition cleaned :: "(codepoint \<Rightarrow> bool) \<Rightarrow> pystr \<Rightarrow> pystr" where
  "cleaned ua s = re_sub_special ua (re_sub_spaces s)"

definition truncation_suffix :: pystr where
  "truncation_suffix = ustr ''... [Content truncated]''"

definition clean_content :: "document_processor \<Rightarrow> (codepoint \<Rightarrow> bool) \<Rightarrow> pystr \<Rightarrow> pystr" where
  "clean_content self ua content =
     (if content = [] then []
      else let content2 = cleaned ua content;
               content3 = (if int (length content2) > max_content_length self
                           then py_slice_to (max_content_length self) content2 @ truncation_suffix
                           else content2)
           in py_strip content3)"

text \<open>A run of two or more consecutive whitespace characters somewhere in a string.\<close>

fun has_space_run :: "pystr \<Rightarrow> bool" where
  "has_space_run (a # b # cs) \<longleftrightarrow> (isspace a \<and> isspace b) \<or> has_space_run (b # cs)"
| "has_space_run cs \<longleftrightarrow> False"

section \<open>The chunker: \<open>CohereCompassRAG._chunk_document\<close>\<close>

text \<open>
  The object holds the model name and \<open>max_chunk_size\<close>, which the constructor sets to
  10000.
\<close>

record cohere_compass_rag =
  model :: pystr
  max_chunk_size :: int

text \<open>
  The body of the loop over the paragraphs. The state is the pair
  \<open>(chunks, current_chunk)\<close>. \<open>if current_chunk:\<close> tests for the non-empty string.
\<close>

definition chunk_step :: "int \<Rightarrow> pystr list \<times> pystr \<Rightarrow> pystr \<Rightarrow> pystr list \<times> pystr" where
  "chunk_step chunk_size st para =
     (case st of (chunks, current_chunk) \<Rightarrow>
        if int (length current_chunk) + int (length para) < chunk_size
        then (chunks, current_chunk @ para @ NLNL)
        else ((if current_chunk \<noteq> [] then chunks @ [py_strip current_chunk] else chunks),
              para @ NLNL))"

text \<open>\<open>if chunk_size is None: chunk_size = self.max_chunk_size\<close>\<close>

definition resolve_chunk_size :: "cohere_compass_rag \<Rightarrow> int option \<Rightarrow> int" where
  "resolve_chunk_size self chunk_size_arg =
     (case chunk_size_arg of None \<Rightarrow> max_chunk_size self | Some n \<Rightarrow> n)"

definition chunk_document :: "cohere_compass_rag \<Rightarrow> pystr \<Rightarrow> int option \<Rightarrow> pystr list" where
  "chunk_document self content chunk_size_arg =
     (let chunk_size = resolve_chunk_size self chunk_size_arg;
          paragraphs = py_split NLNL content
      in case foldl (chunk_step chunk_size) ([], []) paragraphs of
           (chunks, current_chunk) \<Rightarrow>
             if current_chunk \<noteq> [] then chunks @ [py_strip current_chunk] else chunks)"

section \<open>The prompts\<close>

text \<open>
  The literal texts of the source, line by line: a literal with \<open>n\<close> newlines is the join of
  its \<open>n + 1\<close> lines.
\<close>

definition base_prompt :: pystr where
  \<open>base_prompt =
   py_join NL (map ustr
     [''You are an expert AI assistant specialized in analyzing and summarizing complex technical documents, particularly model white papers for financial and risk management systems.'',
      '''',
      ''TASK: Generate a comprehensive, human-like summary of the following model white paper. The summary should be thorough, well-structured, and capture ALL important details without missing any critical information.'',
      '''',
      ''DOCUMENT CONTENT:'',
      ''''])\<close>

definition detail_instructions :: pystr where
  \<open>detail_instructions =
   py_join NL (map ustr
     ['''',
      ''INSTRUCTIONS FOR SUMMARY:'',
      ''1. **Executive Overview** (2-3 paragraphs): Provide a high-level overview of the model, its purpose, and key objectives'',
      ''2. **Model Methodology** (detailed section): Explain the technical approach, algorithms, methodologies, and underlying assumptions'',
      ''3. **Data Requirements** (detailed section): Describe all data sources, data quality requirements, preprocessing steps, and data lineage'',
      ''4. **Key Features and Components** (detailed section): List and explain all important features, components, and modules of the model'',
      ''5. **Performance Metrics** (detailed section): Document all performance measures, benchmarks, and evaluation criteria'',
      ''6. **Risk Considerations** (detailed section): Identify and analyze all risk factors, limitations, and mitigation strategies'',
      ''7. **Regulatory Compliance** (detailed section): Note any regulatory requirements, compliance aspects, and governance considerations'',
      ''8. **Implementation Details** (detailed section): Cover deployment architecture, integration points, and operational considerations'',
      ''9. **Conclusions and Recommendations** (1-2 paragraphs): Summarize key takeaways and any recommendations or next steps'',
      ''10. **Technical Specifications** (detailed section): Include any technical parameters, configurations, or specifications mentioned'',
      '''',
      ''WRITING STYLE:'',
      ''- Write in a professional, clear, and comprehensive manner'',
      ''- Use appropriate technical terminology while remaining accessible'',
      ''- Ensure the summary is self-contained and can be understood without reading the original'',
      ''- Include specific numbers, metrics, and details where mentioned in the document'',
      ''- Organize information logically and hierarchically'',
      ''- Do NOT omit any important details - completeness is critical'',
      '''',
      ''FORMAT: Provide the summary in well-structured sections with clear headings and subheadings using markdown formatting.'',
      ''''])\<close>

definition concise_instructions :: pystr where
  \<open>concise_instructions =
   py_join NL (map ustr
     ['''',
      ''INSTRUCTIONS: Provide a concise but comprehensive summary covering the main points of the document.'',
      ''''])\<close>

definition extraction_prompt_head :: pystr where
  \<open>extraction_prompt_head =
   py_join NL (map ustr
     [''Based on the document content provided, extract the following key information in a structured JSON format:'',
      '''',
      ''{'',
      ''    "model_name": "Name of the model",'',
      ''    "model_type": "Type/category of the model",'',
      ''    "primary_objective": "Main objective or purpose",'',
      ''    "methodology": "Brief description of methodology",'',
      ''    "key_assumptions": ["List of key assumptions"],'',
      ''    "data_sources": ["List of data sources"],'',
      ''    "performance_metrics": ["List of performance metrics"],'',
      ''    "key_limitations": ["List of limitations"],'',
      ''    "risk_factors": ["List of risk factors"],'',
      ''    "regulatory_considerations": ["List of regulatory aspects"],'',
      ''    "implementation_requirements": ["List of implementation requirements"]'',
      ''}'',
      '''',
      ''DOCUMENT CONTENT:'',
      ''''])\<close>

definition extraction_prompt_tail :: pystr where
  \<open>extraction_prompt_tail =
   py_join NL (map ustr
     ['''',
      '''',
      ''Provide the information in valid JSON format.''])\<close>

definition question_prompt_head :: pystr where
  \<open>question_prompt_head =
   py_join NL (map ustr
     [''Based on the following document content, please answer the question comprehensively and accurately.'',
      '''',
      ''DOCUMENT CONTENT:'',
      ''''])\<close>

definition question_prompt_mid :: pystr where
  \<open>question_prompt_mid =
   py_join NL (map ustr
     ['''',
      '''',
      ''QUESTION: ''])\<close>

definition question_prompt_tail :: pystr where
  \<open>question_prompt_tail =
   py_join NL (map ustr
     ['''',
      '''',
      ''Provide a detailed, accurate answer based on the document. If the information is not available in the document, state that clearly.'',
      ''''])\<close>

text \<open>\<open>CohereCompassRAG._create_summary_prompt\<close>\<close>

definition create_summary_prompt :: "pystr \<Rightarrow> bool \<Rightarrow> pystr" where
  "create_summary_prompt content include_details =
     (let truncated_content = (if length content > 50000 then py_slice_to 50000 content else content);
          prompt = base_prompt @ NL @ truncated_content @ NLNL
      in if include_details then prompt @ detail_instructions else prompt @ concise_instructions)"

text \<open>The prompt built in \<open>extract_key_information\<close> and the one built per question in
  \<open>answer_questions\<close>.\<close>

definition extraction_prompt :: "pystr \<Rightarrow> pystr" where
  "extraction_prompt document_content =
     extraction_prompt_head @ py_slice_to 30000 document_content @ extraction_prompt_tail"

definition question_prompt :: "pystr \<Rightarrow> pystr \<Rightarrow> pystr" where
  "question_prompt document_content question =
     question_prompt_head @ py_slice_to 30000 document_content @ question_prompt_mid @ question @
     question_prompt_tail"

section \<open>The model client\<close>

text \<open>
  \<open>self.client.chat(model, message, temperature, max_tokens)\<close> is the external language
  model. It either returns a response whose \<open>text\<close> is read, or raises. What it answers may
  depend on everything it was asked before, so a client is a function of the requests made
  so far and the present request, and the operations thread the list of requests made.
\<close>

datatype error = ValueError pystr | RecursionError pystr | ChatError pystr

record chat_request =
  req_model :: pystr
  message :: pystr
  temperature :: real
  max_tokens :: int

type_synonym chat_client = "chat_request list \<Rightarrow> chat_request \<Rightarrow> error + pystr"

definition client_chat ::
  "chat_client \<Rightarrow> chat_request \<Rightarrow> chat_request list \<Rightarrow> (error + pystr) \<times> chat_request list" where
  "client_chat client req calls = (client calls req, calls @ [req])"

text \<open>The fields of \<open>config.llm\<close> that the operations read, with the defaults of
  \<open>LLMConfig\<close>.\<close>

record llm_config =
  cfg_model_name :: pystr
  cfg_temperature :: real
  cfg_max_tokens :: int

definition default_llm_config :: llm_config where
  "default_llm_config =
     \<lparr>cfg_model_name = ustr ''command-a-03-2025'', cfg_temperature = 0.1, cfg_max_tokens = 8000\<rparr>"

text \<open>The object as \<open>CohereCompassRAG.__init__\<close> builds it once the API key is present.\<close>

definition CohereCompassRAG :: "llm_config \<Rightarrow> cohere_compass_rag" where
  "CohereCompassRAG cfg = \<lparr>model = cfg_model_name cfg, max_chunk_size = 10000\<rparr>"

section \<open>Extraction: \<open>CohereCompassRAG.process_white_paper\<close>\<close>

text \<open>
  \<open>DocumentProcessor.process_document\<close> reads the file system and the format libraries, and
  catches every exception to return the empty string instead, so for the caller it is a
  total function from a path to the extracted text: the parameter \<open>process_document\<close>.
  The \<open>except\<close> clause of \<open>process_white_paper\<close> logs and re-raises, which changes
  nothing in the result.
\<close>

definition process_white_paper :: "(pystr \<Rightarrow> pystr) \<Rightarrow> pystr \<Rightarrow> error + pystr" where
  "process_white_paper process_document file_path =
     (let content = process_document file_path
      in if content = []
         then Inl (ValueError (ustr ''Could not extract content from '' @ file_path))
         else Inr content)"

section \<open>Outline extraction: \<open>CohereCompassRAG._extract_key_sections\<close>\<close>

text \<open>A section is the dictionary \<open>{"title": ..., "content": ...}\<close>.\<close>

record key_section =
  title :: pystr
  content :: pystr

definition startswith :: "pystr \<Rightarrow> pystr \<Rightarrow> bool" where
  "startswith s p \<longleftrightarrow> take (length p) s = p"

text \<open>
  The block that appends the open section, used at every heading and after the loop.
  \<open>if current_section:\<close> is false for \<open>None\<close> and for the empty string.
\<close>

definition close_section :: "key_section list \<Rightarrow> pystr option \<Rightarrow> pystr list \<Rightarrow> key_section list" where
  "close_section sections current_section current_content =
     (case current_section of
        None \<Rightarrow> sections
      | Some t \<Rightarrow>
          if t \<noteq> []
          then sections @ [\<lparr>title = t, content = py_strip (py_join NL current_content)\<rparr>]
          else sections)"

text \<open>The body of the loop over the lines; the state is
  \<open>(sections, current_section, current_content)\<close>.\<close>

definition sections_step ::
  "key_section list \<times> pystr option \<times> pystr list \<Rightarrow> pystr \<Rightarrow> key_section list \<times> pystr option \<times> pystr list" where
  "sections_step st line =
     (case st of (sections, current_section, current_content) \<Rightarrow>
        if startswith line (ustr ''#'')
        then (close_section sections current_section current_content,
              Some (py_strip (py_lstrip_char 35 line)), [])
        else if py_strip line \<noteq> []
        then (sections, current_section, current_content @ [line])
        else (sections, current_section, current_content))"

definition extract_key_sections :: "pystr \<Rightarrow> key_section list" where
  "extract_key_sections summary_text =
     (case foldl sections_step ([], None, []) (py_split NL summary_text) of
        (sections, current_section, current_content) \<Rightarrow>
          close_section sections current_section current_content)"

section \<open>Summary generation: \<open>CohereCompassRAG.generate_summary\<close>\<close>

text \<open>What \<open>json.loads\<close> returns: dictionaries, lists, strings, numbers, booleans and
  \<open>None\<close>.\<close>

datatype json_value =
    JNull
  | JBool bool
  | JInt int
  | JFloat real
  | JString pystr
  | JArray "json_value list"
  | JObject "(pystr \<times> json_value) list"

text \<open>
  The result dictionary, with the keys the source writes. \<open>key_information\<close> is absent
  (\<open>None\<close>) until the caller adds it.
\<close>

record summary_data =
  summary :: pystr
  document_length :: int
  chunks_processed :: int
  model_used :: pystr
  key_sections :: "key_section list"
  key_information :: "json_value option"

text \<open>An exception of the client call is logged and re-raised by the \<open>except\<close> clause.\<close>

definition generate_summary ::
  "chat_client \<Rightarrow> llm_config \<Rightarrow> cohere_compass_rag \<Rightarrow> pystr \<Rightarrow> bool \<Rightarrow> chat_request list
     \<Rightarrow> (error + summary_data) \<times> chat_request list" where
  "generate_summary client cfg self document_content include_details calls =
     (let chunks = chunk_document self document_content None;
          summary_prompt = create_summary_prompt document_content include_details
      in case client_chat client
                \<lparr>req_model = model self, message = summary_prompt,
                 temperature = cfg_temperature cfg, max_tokens = cfg_max_tokens cfg\<rparr> calls of
           (Inl e, calls') \<Rightarrow> (Inl e, calls')
         | (Inr summary_text, calls') \<Rightarrow>
             (Inr \<lparr>summary = summary_text,
                   document_length = int (length document_content),
                   chunks_processed = int (length chunks),
                   model_used = model self,
                   key_sections = extract_key_sections summary_text,
                   key_information = None\<rparr>, calls'))"

section \<open>Question answering: \<open>CohereCompassRAG.answer_questions\<close>\<close>

definition question_request :: "cohere_compass_rag \<Rightarrow> pystr \<Rightarrow> pystr \<Rightarrow> chat_request" where
  "question_request self document_content question =
     \<lparr>req_model = model self, message = question_prompt document_content question,
      temperature = 0.2, max_tokens = 2000\<rparr>"

text \<open>
  The loop over the questions, with the dictionary \<open>answers\<close> built so far. An exception of
  the client call leaves the loop and is re-raised.
\<close>

fun answer_loop ::
  "chat_client \<Rightarrow> cohere_compass_rag \<Rightarrow> pystr \<Rightarrow> pystr list \<Rightarrow> (pystr \<rightharpoonup> pystr)
     \<Rightarrow> chat_request list \<Rightarrow> (error + (pystr \<rightharpoonup> pystr)) \<times> chat_request list" where
  "answer_loop client self document_content [] answers calls = (Inr answers, calls)"
| "answer_loop client self document_content (question # rest) answers calls =
     (case client_chat client (question_request self document_content question) calls of
        (Inl e, calls') \<Rightarrow> (Inl e, calls')
      | (Inr text, calls') \<Rightarrow>
          answer_loop client self document_content rest (answers(question \<mapsto> text)) calls')"

definition answer_questions ::
  "chat_client \<Rightarrow> cohere_compass_rag \<Rightarrow> pystr \<Rightarrow> pystr list \<Rightarrow> chat_request list
     \<Rightarrow> (error + (pystr \<rightharpoonup> pystr)) \<times> chat_request list" where
  "answer_questions client self document_content questions calls =
     answer_loop client self document_content questions Map.empty calls"

section \<open>Key information: \<open>CohereCompassRAG.extract_key_information\<close>\<close>

text \<open>
  \<open>json.loads\<close> is the parser of the standard library: the parameter \<open>json_loads\<close>. For a
  text it returns the parsed value, raises \<open>JSONDecodeError\<close>, or raises another exception:
  CPython raises \<open>RecursionError\<close> on deeply nested brackets and a plain \<open>ValueError\<close> on an
  integer of more than 4300 digits. Only \<open>JSONDecodeError\<close> is caught by the inner
  \<open>except\<close> clause; any other exception reaches the outer one, which logs and re-raises.
\<close>

datatype loads_outcome = Loaded json_value | JSONDecodeError | LoadsError error

definition raw_response :: "pystr \<Rightarrow> json_value" where
  "raw_response text = JObject [(ustr ''raw_response'', JString text)]"

definition extract_key_information ::
  "chat_client \<Rightarrow> (pystr \<Rightarrow> loads_outcome) \<Rightarrow> cohere_compass_rag \<Rightarrow> pystr \<Rightarrow> chat_request list
     \<Rightarrow> (error + json_value) \<times> chat_request list" where
  "extract_key_information client json_loads self document_content calls =
     (case client_chat client
             \<lparr>req_model = model self, message = extraction_prompt document_content,
              temperature = 0.1, max_tokens = 3000\<rparr> calls of
        (Inl e, calls') \<Rightarrow> (Inl e, calls')
      | (Inr text, calls') \<Rightarrow>
          (case json_loads text of
             Loaded extracted_info \<Rightarrow> (Inr extracted_info, calls')
           | JSONDecodeError \<Rightarrow> (Inr (raw_response text), calls')
           | LoadsError e \<Rightarrow> (Inl e, calls')))"

section \<open>The request: the steps of \<open>StreamlitApp.show_white_paper_summary\<close>\<close>

text \<open>
  The three calls the page makes for one uploaded file, in its \<open>try\<close> block: an exception
  of a step skips the steps after it.
\<close>

definition summarize_request ::
  "(pystr \<Rightarrow> pystr) \<Rightarrow> chat_client \<Rightarrow> (pystr \<Rightarrow> loads_outcome) \<Rightarrow> llm_config \<Rightarrow> cohere_compass_rag
     \<Rightarrow> pystr \<Rightarrow> bool \<Rightarrow> bool \<Rightarrow> chat_request list \<Rightarrow> (error + summary_data) \<times> chat_request list" where
  "summarize_request process_document client json_loads cfg self temp_path
       include_detailed_analysis extract_key_info calls =
     (case process_white_paper process_document temp_path of
        Inl e \<Rightarrow> (Inl e, calls)
      | Inr document_content \<Rightarrow>
          (case generate_summary client cfg self document_content include_detailed_analysis calls of
             (Inl e, calls1) \<Rightarrow> (Inl e, calls1)
           | (Inr summary_data, calls1) \<Rightarrow>
               if extract_key_info
               then (case extract_key_information client json_loads self document_content calls1 of
                       (Inl e, calls2) \<Rightarrow> (Inl e, calls2)
                     | (Inr key_info, calls2) \<Rightarrow>
                         (Inr (summary_data\<lparr>key_information := Some key_info\<rparr>), calls2))
               else (Inr summary_data, calls1)))"

section \<open>The outline as the specification describes it\<close>

definition is_heading :: "pystr \<Rightarrow> bool" where
  "is_heading line \<longleftrightarrow> startswith line (ustr ''#'')"

definition heading_title :: "pystr \<Rightarrow> pystr" where
  "heading_title line = py_strip (py_lstrip_char 35 line)"

text \<open>
  The outline in the words of the specification: one section per heading line, titled by
  the marker-stripped text, whose content is the join of the non-empty lines that follow
  up to the next heading.
\<close>

fun outline_as_stated :: "pystr list \<Rightarrow> key_section list" where
  "outline_as_stated [] = []"
| "outline_as_stated (l # ls) =
     (if is_heading l
      then \<lparr>title = heading_title l,
            content = py_join NL (filter (\<lambda>x. x \<noteq> []) (takeWhile (\<lambda>x. \<not> is_heading x) ls))\<rparr>
           # outline_as_stated ls
      else outline_as_stated ls)"

text \<open>
  The same with the content as the source computes it: the lines that are blank once
  stripped are left out, and the join is stripped.
\<close>

fun outline_stripped :: "pystr list \<Rightarrow> key_section list" where
  "outline_stripped [] = []"
| "outline_stripped (l # ls) =
     (if is_heading l
      then \<lparr>title = heading_title l,
            content = py_strip (py_join NL (filter (\<lambda>x. py_strip x \<noteq> [])
                                       (takeWhile (\<lambda>x. \<not> is_heading x) ls)))\<rparr>
           # outline_stripped ls
      else outline_stripped ls)"

section \<open>Auxiliary definitions for the proofs about the chunker\<close>

text \<open>
  The chunker seen on groups of paragraphs: \<open>blk g\<close> is the running chunk built from the
  paragraphs \<open>g\<close>, and \<open>group_step\<close> is \<open>chunk_step\<close> on the groups that the chunks come
  from.
\<close>

definition blk :: "pystr list \<Rightarrow> pystr" where
  "blk g = concat (map (\<lambda>p. p @ NLNL) g)"

definition group_step ::
  "int \<Rightarrow> pystr list list \<times> pystr list \<Rightarrow> pystr \<Rightarrow> pystr list list \<times> pystr list" where
  "group_step n st p =
     (case st of (gs, g) \<Rightarrow>
        if int (length (blk g)) + int (length p) < n then (gs, g @ [p])
        else ((if g \<noteq> [] then gs @ [g] else gs), [p]))"

definition groups :: "int \<Rightarrow> pystr list \<Rightarrow> pystr list list" where
  "groups n ps =
     (case foldl (group_step n) ([], []) ps of (gs, g) \<Rightarrow> if g \<noteq> [] then gs @ [g] else gs)"

definition fits :: "int \<Rightarrow> pystr list \<Rightarrow> bool" where
  "fits n h \<longleftrightarrow> int (length (blk h)) < n + 2 \<or> (\<exists>p. h = [p] \<and> n \<le> int (length p))"

section \<open>Greedy accumulation as the specification describes it\<close>

text \<open>
  The paragraphs of a group \<open>g\<close> were accumulated greedily when every paragraph after the
  first was added to a running chunk that it fitted: the length of the running chunk
  \<open>blk h\<close> of the paragraphs \<open>h\<close> before it, plus its own length, was below the chunk size.
\<close>

fun accumulates_from :: "int \<Rightarrow> pystr list \<Rightarrow> pystr list \<Rightarrow> bool" where
  "accumulates_from n h [] \<longleftrightarrow> True"
| "accumulates_from n h (p # ps) \<longleftrightarrow>
     int (length (blk h)) + int (length p) < n \<and> accumulates_from n (h @ [p]) ps"

definition accumulates :: "int \<Rightarrow> pystr list \<Rightarrow> bool" where
  "accumulates n g \<longleftrightarrow> (case g of [] \<Rightarrow> True | p # ps \<Rightarrow> accumulates_from n [p] ps)"

text \<open>
  A list of groups is the greedy grouping when every group was accumulated greedily and
  was closed only because the first paragraph of the next group would have met or exceeded
  the chunk size.
\<close>

fun greedy :: "int \<Rightarrow> pystr list list \<Rightarrow> bool" where
  "greedy n [] \<longleftrightarrow> True"
| "greedy n [g] \<longleftrightarrow> accumulates n g"
| "greedy n (g # h # gs) \<longleftrightarrow>
     accumulates n g \<and> n \<le> int (length (blk g)) + int (length (hd h)) \<and> greedy n (h # gs)"

section \<open>Stand-ins for the external collaborators\<close>

text \<open>
  Concrete values for the parameters, used where a statement is evaluated at one input:
  a client that always answers the same text, one that always fails, the part of the
  alphanumeric table between 128 and 255, and a parser that answers as \<open>json.loads\<close> of
  CPython 3.11 does on the document \<open>null\<close>, on a text of 1000 or more opening brackets and
  on a text of more than 4300 digits \<open>1\<close> to \<open>9\<close>, and rejects every other text.
\<close>

definition canned_client :: "pystr \<Rightarrow> chat_client" where
  "canned_client response = (\<lambda>calls req. Inr response)"

definition failing_client :: chat_client where
  "failing_client = (\<lambda>calls req. Inl (ChatError (ustr ''unavailable'')))"

definition latin1_alnum :: "codepoint \<Rightarrow> bool" where
  "latin1_alnum c \<longleftrightarrow>
     c = 170 \<or> c = 178 \<or> c = 179 \<or> c = 181 \<or> c = 185 \<or> c = 186 \<or> (188 \<le> c \<and> c \<le> 190) \<or>
     (192 \<le> c \<and> c \<le> 214) \<or> (216 \<le> c \<and> c \<le> 246) \<or> (248 \<le> c \<and> c \<le> 255)"

definition standin_loads :: "pystr \<Rightarrow> loads_outcome" where
  "standin_loads text =
     (if text = ustr ''null'' then Loaded JNull
      else if 1000 \<le> length text \<and> list_all (\<lambda>c. c = 91) text
      then LoadsError (RecursionError (ustr
             ''maximum recursion depth exceeded while decoding a JSON array from a unicode string''))
      else if 4300 < length text \<and> list_all (\<lambda>c. 49 \<le> c \<and> c \<le> 57) text
      then LoadsError (ValueError (ustr ''Exceeds the limit (4300 digits) for integer string conversion''))
      else JSONDecodeError)"

section \<open>Facts about the string operations\<close>

lemma length_ustr: "length (ustr s) = length s"
  by (simp add: ustr_def)

lemma py_split_acc_nonempty: "py_split_acc sep acc s \<noteq> []"
  by (induction sep acc s rule: py_split_acc.induct) auto

lemma py_join_Cons: "xs \<noteq> [] \<Longrightarrow> py_join sep (x # xs) = x @ sep @ py_join sep xs"
  by (cases xs) auto

lemma py_join_split_acc: "py_join sep (py_split_acc sep acc s) = acc @ s"
proof (induction sep acc s rule: py_split_acc.induct)
  case (1 sep acc)
  then show ?case by simp
next
  case (2 sep acc c cs)
  show ?case
  proof (cases "sep \<noteq> [] \<and> take (length sep) (c # cs) = sep")
    case True
    then have "sep @ drop (length sep) (c # cs) = c # cs"
      by (metis append_take_drop_id)
    with True 2(1) show ?thesis
      by (simp add: py_join_Cons py_split_acc_nonempty del: py_split_acc.simps)
         (simp add: py_split_acc_nonempty py_join_Cons)
  next
    case False
    with 2(2) show ?thesis by auto
  qed
qed

lemma py_join_split: "py_join sep (py_split sep s) = s"
  by (simp add: py_split_def py_join_split_acc)

lemma py_split_nonempty: "py_split sep s \<noteq> []"
  by (simp add: py_split_def py_split_acc_nonempty)

lemma py_join_append:
  "xs \<noteq> [] \<Longrightarrow> ys \<noteq> [] \<Longrightarrow> py_join sep (xs @ ys) = py_join sep xs @ sep @ py_join sep ys"
proof (induction xs)
  case Nil
  then show ?case by simp
next
  case (Cons x xs)
  then show ?case by (cases xs) (auto simp: py_join_Cons)
qed

lemma py_join_concat:
  "[] \<notin> set Gs \<Longrightarrow> py_join sep (map (py_join sep) Gs) = py_join sep (concat Gs)"
proof (induction Gs)
  case Nil
  then show ?case by simp
next
  case (Cons G Gs)
  show ?case
  proof (cases Gs)
    case Nil
    then show ?thesis by simp
  next
    case (Cons H Hs)
    with Cons.prems have G: "G \<noteq> []" and C: "concat Gs \<noteq> []" by auto
    from Cons.IH Cons.prems have IH: "py_join sep (map (py_join sep) Gs) = py_join sep (concat Gs)"
      by simp
    have "py_join sep (map (py_join sep) (G # Gs)) =
            py_join sep G @ sep @ py_join sep (map (py_join sep) Gs)"
      using Cons by simp
    also have "\<dots> = py_join sep (G @ concat Gs)"
      using py_join_append [OF G C, of sep] by (simp only: IH)
    finally show ?thesis by simp
  qed
qed

lemma py_strip_append_space: "\<forall>c \<in> set w. isspace c \<Longrightarrow> py_strip (s @ w) = py_strip s"
proof -
  assume w: "\<forall>c \<in> set w. isspace c"
  have "dropWhile isspace (rev (dropWhile isspace (s @ w))) = dropWhile isspace (rev (dropWhile isspace s))"
  proof (cases "\<forall>c \<in> set s. isspace c")
    case True
    with w have "dropWhile isspace (s @ w) = []" "dropWhile isspace s = []"
      by (simp_all add: dropWhile_eq_Nil_conv)
    then show ?thesis by (simp only:)
  next
    case False
    then have "dropWhile isspace (s @ w) = dropWhile isspace s @ w"
      by (auto simp: dropWhile_append)
    with w show ?thesis by (simp add: dropWhile_append)
  qed
  then show ?thesis by (simp add: py_strip_def)
qed

lemma py_strip_NLNL: "py_strip (s @ NLNL) = py_strip s"
  by (rule py_strip_append_space) (simp add: NLNL_def isspace_def)

lemma length_py_strip: "length (py_strip s) \<le> length s"
proof -
  have "length (py_strip s) \<le> length (dropWhile isspace s)"
    unfolding py_strip_def by (simp add: length_dropWhile_le) (metis length_dropWhile_le length_rev)
  also have "\<dots> \<le> length s" by (rule length_dropWhile_le)
  finally show ?thesis .
qed

lemma dropWhile_append_keep:
  "ys \<noteq> [] \<Longrightarrow> \<not> P (hd ys) \<Longrightarrow> dropWhile P (xs @ ys) = dropWhile P xs @ ys"
  by (induction xs) (auto simp: neq_Nil_conv)

lemma py_strip_append_keep:
  assumes "ys \<noteq> []" "\<not> isspace (hd ys)" "\<not> isspace (last ys)"
  shows "py_strip (xs @ ys) = dropWhile isspace xs @ ys"
proof -
  let ?zs = "dropWhile isspace xs"
  have "dropWhile isspace (xs @ ys) = ?zs @ ys"
    using assms(1,2) by (rule dropWhile_append_keep)
  moreover have "dropWhile isspace (rev (?zs @ ys)) = rev (?zs @ ys)"
  proof -
    from assms(1) obtain b l where "ys = b @ [l]" by (cases ys rule: rev_cases) auto
    with assms(3) show ?thesis by simp
  qed
  ultimately show ?thesis by (simp add: py_strip_def)
qed

lemma dropWhile_id: "xs = [] \<or> \<not> P (hd xs) \<Longrightarrow> dropWhile P xs = xs"
  by (cases xs) auto

lemma hd_take: "0 < n \<Longrightarrow> hd (take n xs) = hd xs"
  by (cases xs; cases n) auto

section \<open>The chunker\<close>

lemma blk_Nil_iff: "blk g = [] \<longleftrightarrow> g = []"
  by (cases g) (auto simp: blk_def NLNL_def)

lemma blk_snoc: "blk (g @ [p]) = blk g @ p @ NLNL"
  by (simp add: blk_def)

lemma blk_join: "g \<noteq> [] \<Longrightarrow> blk g = py_join NLNL g @ NLNL"
proof (induction g)
  case Nil
  then show ?case by simp
next
  case (Cons p g)
  then show ?case by (cases g) (auto simp: blk_def)
qed

lemma py_strip_blk: "h \<noteq> [] \<Longrightarrow> py_strip (blk h) = py_strip (py_join NLNL h)"
  by (simp add: blk_join py_strip_NLNL)

lemma foldl_chunk_group:
  "foldl (chunk_step n) (map (\<lambda>h. py_strip (blk h)) gs, blk g) ps =
     (case foldl (group_step n) (gs, g) ps of (gs', g') \<Rightarrow> (map (\<lambda>h. py_strip (blk h)) gs', blk g'))"
proof (induction ps arbitrary: gs g)
  case Nil
  then show ?case by simp
next
  case (Cons p ps)
  show ?case
  proof (cases "int (length (blk g)) + int (length p) < n")
    case True
    then have "chunk_step n (map (\<lambda>h. py_strip (blk h)) gs, blk g) p = (map (\<lambda>h. py_strip (blk h)) gs, blk (g @ [p]))"
      and "group_step n (gs, g) p = (gs, g @ [p])"
      by (simp_all add: chunk_step_def group_step_def blk_snoc)
    then show ?thesis using Cons.IH [of gs "g @ [p]"] by simp
  next
    case False
    let ?gs = "if g \<noteq> [] then gs @ [g] else gs"
    from False have "chunk_step n (map (\<lambda>h. py_strip (blk h)) gs, blk g) p = (map (\<lambda>h. py_strip (blk h)) ?gs, blk [p])"
      and "group_step n (gs, g) p = (?gs, [p])"
      by (simp_all add: chunk_step_def group_step_def blk_Nil_iff) (simp add: blk_def)
    then show ?thesis using Cons.IH [of ?gs "[p]"] by simp
  qed
qed

lemma group_fold_concat:
  "foldl (group_step n) (gs, g) ps = (gs', g') \<Longrightarrow> concat gs' @ g' = concat gs @ g @ ps"
proof (induction ps arbitrary: gs g)
  case Nil
  then show ?case by simp
next
  case (Cons p ps)
  obtain gs1 g1 where s: "group_step n (gs, g) p = (gs1, g1)" by (cases "group_step n (gs, g) p")
  then have "concat gs1 @ g1 = concat gs @ g @ [p]"
    by (auto simp: group_step_def split: if_splits)
  moreover from Cons.prems s have "concat gs' @ g' = concat gs1 @ g1 @ ps"
    using Cons.IH [of gs1 g1] by simp
  ultimately show ?case by simp
qed

lemma group_fold_elems:
  "foldl (group_step n) (gs, g) ps = (gs', g') \<Longrightarrow> [] \<notin> set gs \<Longrightarrow> [] \<notin> set gs'"
proof (induction ps arbitrary: gs g)
  case Nil
  then show ?case by simp
next
  case (Cons p ps)
  obtain gs1 g1 where s: "group_step n (gs, g) p = (gs1, g1)" by (cases "group_step n (gs, g) p")
  with Cons.prems(2) have "[] \<notin> set gs1"
    by (auto simp: group_step_def split: if_splits)
  with Cons.prems(1) s show ?case using Cons.IH [of gs1 g1] by simp
qed

lemma group_fold_current:
  "foldl (group_step n) (gs, g) ps = (gs', g') \<Longrightarrow> ps \<noteq> [] \<or> g \<noteq> [] \<Longrightarrow> g' \<noteq> []"
proof (induction ps arbitrary: gs g)
  case Nil
  then show ?case by simp
next
  case (Cons p ps)
  obtain gs1 g1 where s: "group_step n (gs, g) p = (gs1, g1)" by (cases "group_step n (gs, g) p")
  then have "g1 \<noteq> []"
    by (auto simp: group_step_def split: if_splits)
  with Cons.prems(1) s show ?case using Cons.IH [of gs1 g1] by simp
qed

lemma fits_single: "fits n [p]"
  by (simp add: fits_def blk_def NLNL_def) linarith

lemma group_fold_fits:
  "foldl (group_step n) (gs, g) ps = (gs', g') \<Longrightarrow> \<forall>h \<in> set gs. fits n h \<Longrightarrow> g = [] \<or> fits n g
     \<Longrightarrow> (\<forall>h \<in> set gs'. fits n h) \<and> (g' = [] \<or> fits n g')"
proof (induction ps arbitrary: gs g)
  case Nil
  then show ?case by simp
next
  case (Cons p ps)
  obtain gs1 g1 where s: "group_step n (gs, g) p = (gs1, g1)" by (cases "group_step n (gs, g) p")
  have "(\<forall>h \<in> set gs1. fits n h) \<and> (g1 = [] \<or> fits n g1)"
  proof (cases "int (length (blk g)) + int (length p) < n")
    case True
    with s have "gs1 = gs" "g1 = g @ [p]" by (simp_all add: group_step_def)
    moreover from True have "fits n (g @ [p])"
      by (simp add: fits_def blk_snoc NLNL_def)
    ultimately show ?thesis using Cons.prems(2) by simp
  next
    case False
    with s have "gs1 = (if g \<noteq> [] then gs @ [g] else gs)" "g1 = [p]" by (simp_all add: group_step_def)
    then show ?thesis using Cons.prems(2,3) by (auto simp: fits_single)
  qed
  with Cons.prems(1) s show ?case using Cons.IH [of gs1 g1] by simp
qed

lemma concat_groups: "concat (groups n ps) = ps"
proof -
  obtain gs g where f: "foldl (group_step n) ([], []) ps = (gs, g)"
    by (cases "foldl (group_step n) ([], []) ps")
  from group_fold_concat [OF f] show ?thesis by (auto simp: groups_def f)
qed

lemma groups_elems: "[] \<notin> set (groups n ps)"
proof -
  obtain gs g where f: "foldl (group_step n) ([], []) ps = (gs, g)"
    by (cases "foldl (group_step n) ([], []) ps")
  from group_fold_elems [OF f] show ?thesis by (auto simp: groups_def f)
qed

lemma groups_nonempty: "ps \<noteq> [] \<Longrightarrow> groups n ps \<noteq> []"
proof -
  assume ps: "ps \<noteq> []"
  obtain gs g where f: "foldl (group_step n) ([], []) ps = (gs, g)"
    by (cases "foldl (group_step n) ([], []) ps")
  from group_fold_current [OF f] ps have "g \<noteq> []" by simp
  then show ?thesis by (simp add: groups_def f)
qed

lemma groups_fits: "h \<in> set (groups n ps) \<Longrightarrow> fits n h"
proof -
  assume h: "h \<in> set (groups n ps)"
  obtain gs g where f: "foldl (group_step n) ([], []) ps = (gs, g)"
    by (cases "foldl (group_step n) ([], []) ps")
  from group_fold_fits [OF f] have "(\<forall>h \<in> set gs. fits n h) \<and> (g = [] \<or> fits n g)" by simp
  with h show ?thesis by (auto simp: groups_def f split: if_splits)
qed

lemma chunk_document_groups:
  "chunk_document self doc a =
     map (\<lambda>h. py_strip (blk h)) (groups (resolve_chunk_size self a) (py_split NLNL doc))"
proof -
  let ?n = "resolve_chunk_size self a" and ?ps = "py_split NLNL doc"
  obtain gs g where f: "foldl (group_step ?n) ([], []) ?ps = (gs, g)"
    by (cases "foldl (group_step ?n) ([], []) ?ps")
  have "foldl (chunk_step ?n) ([], []) ?ps = (map (\<lambda>h. py_strip (blk h)) gs, blk g)"
    using foldl_chunk_group [of ?n "[]" "[]" ?ps] by (simp add: f blk_def)
  then show ?thesis
    by (simp add: chunk_document_def resolve_chunk_size_def [symmetric] groups_def f blk_Nil_iff)
qed

lemma chunk_document_nonempty: "chunk_document self doc a \<noteq> []"
  by (simp add: chunk_document_groups groups_nonempty py_split_nonempty)

lemma chunk_document_empty: "chunk_document self [] a = [[]]"
  by (simp add: chunk_document_def py_split_def chunk_step_def py_strip_def NLNL_def isspace_def)

lemma chunk_size_bound:
  assumes "c \<in> set (chunk_document self doc a)"
  shows "int (length c) < resolve_chunk_size self a \<or>
         (\<exists>p \<in> set (py_split NLNL doc). resolve_chunk_size self a \<le> int (length p) \<and> c = py_strip p)"
proof -
  let ?n = "resolve_chunk_size self a" and ?ps = "py_split NLNL doc"
  from assms obtain h where h: "h \<in> set (groups ?n ?ps)" and c: "c = py_strip (blk h)"
    by (auto simp: chunk_document_groups)
  from h groups_elems [of ?n ?ps] have ne: "h \<noteq> []" by auto
  from h have "set h \<subseteq> set ?ps"
    using concat_groups [of ?n ?ps] by (metis UN_I set_concat subsetI)
  from groups_fits [OF h] show ?thesis
    unfolding fits_def
  proof
    assume "int (length (blk h)) < ?n + 2"
    moreover have "length c \<le> length (py_join NLNL h)"
      using c ne by (simp add: py_strip_blk length_py_strip)
    moreover have "length (blk h) = length (py_join NLNL h) + 2"
      using ne by (simp add: blk_join NLNL_def)
    ultimately show ?thesis by simp
  next
    assume "\<exists>p. h = [p] \<and> ?n \<le> int (length p)"
    then obtain p where p: "h = [p]" "?n \<le> int (length p)" by blast
    with \<open>set h \<subseteq> set ?ps\<close> have "p \<in> set ?ps" by simp
    moreover from c p have "c = py_strip p" by (simp add: py_strip_blk)
    ultimately show ?thesis using p by blast
  qed
qed

text \<open>
  Claim C3 (chunker round trip). For every input text and every chunk size, the chunks are
  the stripped forms of consecutive pieces of the input: joining the pieces with the
  paragraph separator gives back the input exactly, and each chunk is its piece without
  the leading and trailing whitespace. Nothing else is lost and the order is kept.
\<close>

theorem chunk_roundtrip:
  "\<exists>pieces. py_join NLNL pieces = doc \<and> chunk_document self doc a = map py_strip pieces"
proof -
  let ?G = "groups (resolve_chunk_size self a) (py_split NLNL doc)"
  have "py_join NLNL (map (py_join NLNL) ?G) = doc"
    by (simp add: py_join_concat groups_elems concat_groups py_join_split)
  moreover have "chunk_document self doc a = map py_strip (map (py_join NLNL) ?G)"
    using groups_elems [of "resolve_chunk_size self a" "py_split NLNL doc"]
    by (auto simp: chunk_document_groups intro!: py_strip_blk)
  ultimately show ?thesis by blast
qed

lemma accumulates_from_snoc:
  "accumulates_from n h (ps @ [p]) \<longleftrightarrow>
     accumulates_from n h ps \<and> int (length (blk (h @ ps))) + int (length p) < n"
  by (induction ps arbitrary: h) auto

lemma accumulates_snoc:
  "g \<noteq> [] \<Longrightarrow> accumulates n (g @ [p]) \<longleftrightarrow>
     accumulates n g \<and> int (length (blk g)) + int (length p) < n"
  by (cases g) (auto simp: accumulates_def accumulates_from_snoc)

lemma accumulates_single: "accumulates n [p]"
  by (simp add: accumulates_def)

lemma greedy_snoc:
  "gs \<noteq> [] \<Longrightarrow> greedy n (gs @ [h]) \<longleftrightarrow>
     greedy n gs \<and> n \<le> int (length (blk (last gs))) + int (length (hd h)) \<and> accumulates n h"
proof (induction gs rule: greedy.induct)
  case (1 n)
  then show ?case by simp
next
  case (2 n g)
  then show ?case by auto
next
  case (3 n g k gs)
  then show ?case by auto
qed

lemma greedy_last:
  "greedy n (gs @ [g]) \<longleftrightarrow>
     (gs = [] \<or> (greedy n gs \<and> n \<le> int (length (blk (last gs))) + int (length (hd g)))) \<and>
     accumulates n g"
  by (cases "gs = []") (auto simp: greedy_snoc)

lemma group_fold_greedy:
  "foldl (group_step n) (gs, g) ps = (gs', g') \<Longrightarrow>
     (if g = [] then gs = [] else greedy n (gs @ [g])) \<Longrightarrow>
     (if g' = [] then gs' = [] else greedy n (gs' @ [g']))"
proof (induction ps arbitrary: gs g)
  case Nil
  then show ?case by auto
next
  case (Cons p ps)
  obtain gs1 g1 where s: "group_step n (gs, g) p = (gs1, g1)" by (cases "group_step n (gs, g) p")
  have "if g1 = [] then gs1 = [] else greedy n (gs1 @ [g1])"
  proof (cases "int (length (blk g)) + int (length p) < n")
    case True
    with s have e: "gs1 = gs" "g1 = g @ [p]" by (simp_all add: group_step_def)
    show ?thesis
    proof (cases "g = []")
      case True
      with Cons.prems(2) e show ?thesis by (simp add: accumulates_single)
    next
      case False
      with Cons.prems(2) have "greedy n (gs @ [g])" by simp
      with False True e show ?thesis
        by (simp add: greedy_last accumulates_snoc)
    qed
  next
    case False
    with s have e: "gs1 = (if g \<noteq> [] then gs @ [g] else gs)" "g1 = [p]"
      by (simp_all add: group_step_def)
    show ?thesis
    proof (cases "g = []")
      case True
      with Cons.prems(2) e show ?thesis by (simp add: accumulates_single)
    next
      case g: False
      with Cons.prems(2) have "greedy n (gs @ [g])" by simp
      with g False e show ?thesis
        using greedy_last [of n "gs @ [g]" "[p]"] by (simp add: accumulates_single)
    qed
  qed
  with Cons.prems(1) s show ?case using Cons.IH [of gs1 g1] by simp
qed

lemma greedy_groups: "greedy n (groups n ps)"
proof -
  obtain gs g where f: "foldl (group_step n) ([], []) ps = (gs, g)"
    by (cases "foldl (group_step n) ([], []) ps")
  from group_fold_greedy [OF f] have "if g = [] then gs = [] else greedy n (gs @ [g])" by simp
  then show ?thesis by (auto simp: groups_def f split: if_splits)
qed

lemma accumulates_from_append:
  "accumulates_from n h (ps @ p # us) \<Longrightarrow> int (length (blk (h @ ps))) + int (length p) < n"
proof (induction ps arbitrary: h)
  case Nil
  then show ?case by simp
next
  case (Cons q ps)
  from Cons.prems have "accumulates_from n (h @ [q]) (ps @ p # us)" by simp
  from Cons.IH [OF this] show ?case by simp
qed

lemma accumulates_append:
  "g \<noteq> [] \<Longrightarrow> accumulates n (g @ p # us) \<Longrightarrow> int (length (blk g)) + int (length p) < n"
  using accumulates_from_append [of n "[hd g]" "tl g" p us]
  by (cases g) (auto simp: accumulates_def)

lemma greedy_tl: "greedy n (g # gs) \<Longrightarrow> greedy n gs"
  by (cases gs) auto

lemma greedy_hd: "greedy n (g # gs) \<Longrightarrow> accumulates n g"
  by (cases gs) auto

lemma greedy_first_longer:
  assumes "greedy n (g # rest)" "accumulates n (g @ us)" "us \<noteq> []" "g \<noteq> []"
    "[] \<notin> set rest" "concat rest = us @ tail"
  shows False
proof -
  from assms(3) obtain p us' where us: "us = p # us'" by (cases us) auto
  from assms(3,6) have "rest \<noteq> []" by auto
  then obtain h rest2 where rest: "rest = h # rest2" by (cases rest) auto
  with assms(5) have "h \<noteq> []" by auto
  with rest assms(6) us have "hd h = p" by (cases h) auto
  with assms(1) rest have "n \<le> int (length (blk g)) + int (length p)" by simp
  moreover from accumulates_append [OF assms(4), of n p us'] assms(2) us
  have "int (length (blk g)) + int (length p) < n" by simp
  ultimately show False by simp
qed

lemma greedy_unique:
  "concat gs = concat gs' \<Longrightarrow> [] \<notin> set gs \<Longrightarrow> [] \<notin> set gs' \<Longrightarrow> greedy n gs \<Longrightarrow> greedy n gs'
     \<Longrightarrow> gs = gs'"
proof (induction gs arbitrary: gs')
  case Nil
  then show ?case by (cases gs') auto
next
  case (Cons g rest)
  from Cons.prems(2) have g: "g \<noteq> []" and r: "[] \<notin> set rest" by auto
  with Cons.prems(1) have "gs' \<noteq> []" by auto
  then obtain g' rest' where gs': "gs' = g' # rest'" by (cases gs') auto
  with Cons.prems(3) have g': "g' \<noteq> []" and r': "[] \<notin> set rest'" by auto
  from Cons.prems(1) gs' have eq: "g @ concat rest = g' @ concat rest'" by simp
  then obtain us where
    "(g = g' @ us \<and> us @ concat rest = concat rest') \<or> (g @ us = g' \<and> concat rest = us @ concat rest')"
    by (auto simp: append_eq_append_conv2)
  then have "us = []"
  proof
    assume a: "g = g' @ us \<and> us @ concat rest = concat rest'"
    show ?thesis
    proof (rule ccontr)
      assume "us \<noteq> []"
      with greedy_first_longer [of n g' rest' us "concat rest"] Cons.prems(5) gs' a g' r'
        greedy_hd [OF Cons.prems(4)]
      show False by simp
    qed
  next
    assume a: "g @ us = g' \<and> concat rest = us @ concat rest'"
    show ?thesis
    proof (rule ccontr)
      assume "us \<noteq> []"
      with greedy_first_longer [of n g rest us "concat rest'"] Cons.prems(4) gs' a g r
        greedy_hd [of n g' rest'] Cons.prems(5)
      show False by simp
    qed
  qed
  with eq \<open>(g = g' @ us \<and> us @ concat rest = concat rest') \<or>
     (g @ us = g' \<and> concat rest = us @ concat rest')\<close>
  have "g = g'" and "concat rest = concat rest'" by auto
  moreover from Cons.IH [OF \<open>concat rest = concat rest'\<close> r r' greedy_tl [OF Cons.prems(4)]]
    greedy_tl [of n g' rest'] Cons.prems(5) gs'
  have "rest = rest'" by simp
  ultimately show ?case using gs' by simp
qed

text \<open>
  Claim C4 (greedy accumulation and soft size cap). A step of the chunker adds the next
  paragraph to the running chunk when the lengths sum to less than the chunk size, and
  otherwise closes the running chunk (when there is one) and starts a new one with the
  paragraph; so the list of chunks grows exactly when the running chunk is non-empty and
  adding the paragraph would meet or exceed the size. The chunks returned are the
  stripped joins of the groups of the greedy grouping of the paragraphs, in order, and the
  paragraphs have no other greedy grouping: every paragraph that fits the running chunk
  is added to it, and a chunk is closed only before a paragraph that does not fit. Every
  returned chunk is shorter than the chunk size, except a chunk that is a single paragraph
  at least that long, kept whole.
\<close>

theorem chunk_greedy_soft_cap:
  "(int (length cur) + int (length para) < n \<longrightarrow>
      chunk_step n (chunks, cur) para = (chunks, cur @ para @ NLNL)) \<and>
   (n \<le> int (length cur) + int (length para) \<and> cur \<noteq> [] \<longrightarrow>
      chunk_step n (chunks, cur) para = (chunks @ [py_strip cur], para @ NLNL)) \<and>
   (fst (chunk_step n (chunks, cur) para) \<noteq> chunks \<longleftrightarrow>
      cur \<noteq> [] \<and> n \<le> int (length cur) + int (length para)) \<and>
   (\<exists>gs. concat gs = py_split NLNL doc \<and> [] \<notin> set gs \<and>
      greedy (resolve_chunk_size self a) gs \<and>
      chunk_document self doc a = map (\<lambda>g. py_strip (py_join NLNL g)) gs \<and>
      (\<forall>gs'. concat gs' = py_split NLNL doc \<and> [] \<notin> set gs' \<and>
          greedy (resolve_chunk_size self a) gs' \<longrightarrow> gs' = gs)) \<and>
   (\<forall>c \<in> set (chunk_document self doc a).
      int (length c) < resolve_chunk_size self a \<or>
      (\<exists>p \<in> set (py_split NLNL doc). resolve_chunk_size self a \<le> int (length p) \<and> c = py_strip p))"
proof -
  let ?n = "resolve_chunk_size self a" and ?ps = "py_split NLNL doc"
  let ?G = "groups ?n ?ps"
  have "chunk_document self doc a = map (\<lambda>g. py_strip (py_join NLNL g)) ?G"
    using groups_elems [of ?n ?ps]
    by (auto simp: chunk_document_groups intro!: py_strip_blk)
  moreover have "\<forall>gs'. concat gs' = ?ps \<and> [] \<notin> set gs' \<and> greedy ?n gs' \<longrightarrow> gs' = ?G"
    using greedy_unique [of _ ?G ?n] by (simp add: concat_groups groups_elems greedy_groups)
  ultimately have "\<exists>gs. concat gs = ?ps \<and> [] \<notin> set gs \<and> greedy ?n gs \<and>
      chunk_document self doc a = map (\<lambda>g. py_strip (py_join NLNL g)) gs \<and>
      (\<forall>gs'. concat gs' = ?ps \<and> [] \<notin> set gs' \<and> greedy ?n gs' \<longrightarrow> gs' = gs)"
    using concat_groups [of ?n ?ps] groups_elems [of ?n ?ps] greedy_groups [of ?n ?ps] by blast
  moreover have "\<forall>c \<in> set (chunk_document self doc a).
      int (length c) < ?n \<or> (\<exists>p \<in> set ?ps. ?n \<le> int (length p) \<and> c = py_strip p)"
    using chunk_size_bound [of _ self doc a] by blast
  moreover have "(int (length cur) + int (length para) < n \<longrightarrow>
      chunk_step n (chunks, cur) para = (chunks, cur @ para @ NLNL)) \<and>
   (n \<le> int (length cur) + int (length para) \<and> cur \<noteq> [] \<longrightarrow>
      chunk_step n (chunks, cur) para = (chunks @ [py_strip cur], para @ NLNL)) \<and>
   (fst (chunk_step n (chunks, cur) para) \<noteq> chunks \<longleftrightarrow>
      cur \<noteq> [] \<and> n \<le> int (length cur) + int (length para))"
    by (auto simp: chunk_step_def)
  ultimately show ?thesis by blast
qed

theorem chunk_greedy_soft_cap_witness:
  "chunk_step 5 ([], ustr ''b'' @ NLNL) (ustr ''c'') = ([], ustr ''b'' @ NLNL @ ustr ''c'' @ NLNL) \<and>
   chunk_step 5 ([], ustr ''aaaaaa'' @ NLNL) (ustr ''b'') = ([ustr ''aaaaaa''], ustr ''b'' @ NLNL) \<and>
   chunk_document (CohereCompassRAG default_llm_config)
     (ustr ''aaaaaa'' @ NLNL @ ustr ''b'' @ NLNL @ ustr ''c'') (Some 5) =
     map (\<lambda>g. py_strip (py_join NLNL g)) [[ustr ''aaaaaa''], [ustr ''b'', ustr ''c'']] \<and>
   chunk_document (CohereCompassRAG default_llm_config)
     (ustr ''aaaaaa'' @ NLNL @ ustr ''b'' @ NLNL @ ustr ''c'') (Some 5) =
     [ustr ''aaaaaa'', ustr ''b'' @ NLNL @ ustr ''c''] \<and>
   (int (length (ustr ''aaaaaa'')) < 5 \<or>
    (\<exists>p \<in> set (py_split NLNL (ustr ''aaaaaa'' @ NLNL @ ustr ''b'' @ NLNL @ ustr ''c'')).
       5 \<le> int (length p) \<and> ustr ''aaaaaa'' = py_strip p)) \<and>
   int (length (ustr ''b'' @ NLNL @ ustr ''c'')) < 5"
proof -
  let ?rag = "CohereCompassRAG default_llm_config"
  let ?doc = "ustr ''aaaaaa'' @ NLNL @ ustr ''b'' @ NLNL @ ustr ''c''"
  let ?gs = "[[ustr ''aaaaaa''], [ustr ''b'', ustr ''c'']]"
  note inst1 = chunk_greedy_soft_cap [of "ustr ''b'' @ NLNL" "ustr ''c''" 5 "[]" ?doc ?rag "Some 5"]
  note inst2 = chunk_greedy_soft_cap [of "ustr ''aaaaaa'' @ NLNL" "ustr ''b''" 5 "[]" ?doc ?rag "Some 5"]
  have l1: "int (length (ustr ''b'' @ NLNL)) + int (length (ustr ''c'')) < 5"
    by (simp add: ustr_def NLNL_def)
  have l2: "5 \<le> int (length (ustr ''aaaaaa'' @ NLNL)) + int (length (ustr ''b'')) \<and> ustr ''aaaaaa'' @ NLNL \<noteq> []"
    by (simp add: ustr_def NLNL_def)
  have s: "py_strip (ustr ''aaaaaa'' @ NLNL) = ustr ''aaaaaa''"
    by (simp add: py_strip_def ustr_def NLNL_def isspace_def)
  have r: "resolve_chunk_size ?rag (Some 5) = 5" by (simp add: resolve_chunk_size_def)
  have g: "concat ?gs = py_split NLNL ?doc \<and> [] \<notin> set ?gs \<and> greedy 5 ?gs"
    by (simp add: py_split_def accumulates_def blk_def ustr_def NLNL_def)
  have m: "map (\<lambda>g. py_strip (py_join NLNL g)) ?gs = [ustr ''aaaaaa'', ustr ''b'' @ NLNL @ ustr ''c'']"
    by (simp add: py_strip_def ustr_def NLNL_def isspace_def)
  from inst1 l1 have a: "chunk_step 5 ([], ustr ''b'' @ NLNL) (ustr ''c'') = ([], (ustr ''b'' @ NLNL) @ ustr ''c'' @ NLNL)"
    by blast
  from inst2 l2 have b: "chunk_step 5 ([], ustr ''aaaaaa'' @ NLNL) (ustr ''b'') = ([] @ [py_strip (ustr ''aaaaaa'' @ NLNL)], ustr ''b'' @ NLNL)"
    by blast
  from inst1 obtain gs where
    d0: "chunk_document ?rag ?doc (Some 5) = map (\<lambda>g. py_strip (py_join NLNL g)) gs" and
    u: "\<forall>gs'. concat gs' = py_split NLNL ?doc \<and> [] \<notin> set gs' \<and>
          greedy (resolve_chunk_size ?rag (Some 5)) gs' \<longrightarrow> gs' = gs"
    by blast
  from u g have "?gs = gs" unfolding r by blast
  with d0 have d1: "chunk_document ?rag ?doc (Some 5) = map (\<lambda>g. py_strip (py_join NLNL g)) ?gs"
    by simp
  then have d: "chunk_document ?rag ?doc (Some 5) = [ustr ''aaaaaa'', ustr ''b'' @ NLNL @ ustr ''c'']"
    by (simp only: m)
  from inst1 have "\<forall>c \<in> set (chunk_document ?rag ?doc (Some 5)).
      int (length c) < resolve_chunk_size ?rag (Some 5) \<or>
      (\<exists>p \<in> set (py_split NLNL ?doc). resolve_chunk_size ?rag (Some 5) \<le> int (length p) \<and> c = py_strip p)"
    by blast
  then have c: "int (length (ustr ''aaaaaa'')) < 5 \<or>
    (\<exists>p \<in> set (py_split NLNL ?doc). 5 \<le> int (length p) \<and> ustr ''aaaaaa'' = py_strip p)"
    unfolding d r by simp
  have e: "int (length (ustr ''b'' @ NLNL @ ustr ''c'')) < 5" by (simp add: ustr_def NLNL_def)
  from a b c d d1 e s show ?thesis by simp
qed

text \<open>
  Claim C10 (the chunk list is never empty). The chunker returns at least one chunk for
  every input, the empty input gives the single chunk \<open>""\<close>, and every record that
  summary generation returns has \<open>chunks_processed\<close> at least 1; it returns one whenever the
  client answers.
\<close>

theorem chunk_document_never_empty:
  "chunk_document self doc a \<noteq> [] \<and>
   chunk_document self [] a = [[]] \<and>
   (\<forall>r calls'. generate_summary client cfg self doc details calls = (Inr r, calls') \<longrightarrow>
      1 \<le> chunks_processed r) \<and>
   (\<forall>resp. client calls \<lparr>req_model = model self, message = create_summary_prompt doc details,
               temperature = cfg_temperature cfg, max_tokens = cfg_max_tokens cfg\<rparr> = Inr resp \<longrightarrow>
      (\<exists>r calls'. generate_summary client cfg self doc details calls = (Inr r, calls') \<and>
         summary r = resp \<and> 1 \<le> chunks_processed r))"
proof -
  have ne: "chunk_document self doc None \<noteq> []" by (rule chunk_document_nonempty)
  then have "1 \<le> int (length (chunk_document self doc None))"
    by (cases "chunk_document self doc None") simp_all
  then show ?thesis
    by (auto simp: chunk_document_nonempty chunk_document_empty generate_summary_def
        client_chat_def Let_def split: sum.splits)
qed

theorem chunk_document_never_empty_witness:
  "\<exists>r calls'. generate_summary (canned_client (ustr ''# A'')) default_llm_config
       (CohereCompassRAG default_llm_config) [] True [] = (Inr r, calls') \<and>
     summary r = ustr ''# A'' \<and> 1 \<le> chunks_processed r"
proof -
  have "canned_client (ustr ''# A'') []
          \<lparr>req_model = model (CohereCompassRAG default_llm_config),
           message = create_summary_prompt [] True,
           temperature = cfg_temperature default_llm_config,
           max_tokens = cfg_max_tokens default_llm_config\<rparr> = Inr (ustr ''# A'')"
    by (simp add: canned_client_def)
  with chunk_document_never_empty
         [of "CohereCompassRAG default_llm_config" "[]" None "canned_client (ustr ''# A'')"
             default_llm_config True "[]"]
  show ?thesis by blast
qed

section \<open>The normalizer\<close>

lemma truncation_suffix_simps:
  "truncation_suffix \<noteq> []" "\<not> isspace (hd truncation_suffix)"
  "\<not> isspace (last truncation_suffix)" "length truncation_suffix = 23"
  by (simp_all add: truncation_suffix_def ustr_def isspace_def)

lemma cleaned_Nil: "cleaned ua [] = []"
  by (simp add: cleaned_def re_sub_special_def)

lemma clean_content_over:
  assumes "raw \<noteq> []" "max_content_length self < int (length (cleaned ua raw))"
  shows "clean_content self ua raw =
           dropWhile isspace (py_slice_to (max_content_length self) (cleaned ua raw)) @ truncation_suffix"
  using assms by (simp add: clean_content_def Let_def py_strip_append_keep truncation_suffix_simps)

lemma clean_content_under:
  assumes "int (length (cleaned ua raw)) \<le> max_content_length self"
  shows "clean_content self ua raw = py_strip (cleaned ua raw)"
  using assms by (cases "raw = []") (simp_all add: clean_content_def Let_def cleaned_Nil py_strip_def)

lemma re_sub_spaces_plain: "\<forall>c \<in> set s. \<not> isspace c \<Longrightarrow> re_sub_spaces s = s"
  by (induction s) auto

lemma cleaned_plain: "\<forall>c \<in> set s. \<not> isspace c \<and> kept ua c \<Longrightarrow> cleaned ua s = s"
  by (simp add: cleaned_def re_sub_special_def re_sub_spaces_plain)

lemma letter_a: "\<not> isspace 97" "kept ua 97"
  by (simp_all add: isspace_def kept_def is_word_def isalnum_def ascii_alnum_def)

lemma cleaned_replicate_a: "cleaned ua (replicate n 97) = replicate n 97"
  by (rule cleaned_plain) (simp add: letter_a)

lemma cleaned_space_replicate_a: "cleaned ua (32 # replicate n 97) = 32 # replicate n 97"
proof -
  have "dropWhile isspace (replicate n 97) = replicate n 97"
    by (rule dropWhile_id) (cases n; simp add: letter_a)
  moreover have "re_sub_spaces (replicate n 97) = replicate n 97"
    by (rule re_sub_spaces_plain) (simp add: letter_a)
  ultimately have "re_sub_spaces (32 # replicate n 97) = 32 # replicate n 97"
    by (simp add: isspace_def)
  moreover have "kept ua 32" by (simp add: kept_def isspace_def)
  ultimately show ?thesis
    by (simp add: cleaned_def re_sub_special_def letter_a)
qed

text \<open>
  Claim C1 (normalizer truncation), as amended. With the constructor's limit of 500,000:
  when the cleaned content is longer than the limit, the result is its first 500,000
  characters without their leading whitespace, followed by the suffix
  \<open>... [Content truncated]\<close>; when moreover the cleaned content does not start with
  whitespace, the result is the first 500,000 characters followed by the suffix, of length
  500,023. When the cleaned content is at or under the limit the result is the cleaned
  content stripped, with nothing appended.
\<close>

theorem clean_content_truncation:
  "(500000 < length (cleaned ua raw) \<longrightarrow>
      clean_content DocumentProcessor ua raw =
        dropWhile isspace (take 500000 (cleaned ua raw)) @ ustr ''... [Content truncated]'') \<and>
   (500000 < length (cleaned ua raw) \<and> \<not> isspace (hd (cleaned ua raw)) \<longrightarrow>
      clean_content DocumentProcessor ua raw =
        take 500000 (cleaned ua raw) @ ustr ''... [Content truncated]'' \<and>
      length (clean_content DocumentProcessor ua raw) = 500000 + 23) \<and>
   (length (cleaned ua raw) \<le> 500000 \<longrightarrow>
      clean_content DocumentProcessor ua raw = py_strip (cleaned ua raw))"
proof (intro conjI impI)
  assume over: "500000 < length (cleaned ua raw)"
  then have ne: "raw \<noteq> []" by (auto simp: cleaned_Nil)
  from over have "max_content_length DocumentProcessor < int (length (cleaned ua raw))"
    by (simp add: DocumentProcessor_def)
  from clean_content_over [OF ne this]
  show "clean_content DocumentProcessor ua raw =
          dropWhile isspace (take 500000 (cleaned ua raw)) @ ustr ''... [Content truncated]''"
    by (simp add: DocumentProcessor_def py_slice_to_def truncation_suffix_def)
next
  assume "500000 < length (cleaned ua raw) \<and> \<not> isspace (hd (cleaned ua raw))"
  then have over: "500000 < length (cleaned ua raw)" and hd: "\<not> isspace (hd (cleaned ua raw))"
    by simp_all
  from over have ne: "raw \<noteq> []" by (auto simp: cleaned_Nil)
  from over have "max_content_length DocumentProcessor < int (length (cleaned ua raw))"
    by (simp add: DocumentProcessor_def)
  from clean_content_over [OF ne this]
  have "clean_content DocumentProcessor ua raw =
          dropWhile isspace (take 500000 (cleaned ua raw)) @ truncation_suffix"
    by (simp add: DocumentProcessor_def py_slice_to_def)
  moreover have "dropWhile isspace (take 500000 (cleaned ua raw)) = take 500000 (cleaned ua raw)"
    using hd by (intro dropWhile_id) (simp add: hd_take)
  ultimately have eq: "clean_content DocumentProcessor ua raw =
          take 500000 (cleaned ua raw) @ truncation_suffix" by simp
  then show "clean_content DocumentProcessor ua raw =
          take 500000 (cleaned ua raw) @ ustr ''... [Content truncated]''"
    by (simp add: truncation_suffix_def)
  from eq over show "length (clean_content DocumentProcessor ua raw) = 500000 + 23"
    by (simp add: truncation_suffix_simps)
next
  assume "length (cleaned ua raw) \<le> 500000"
  then have "int (length (cleaned ua raw)) \<le> max_content_length DocumentProcessor"
    by (simp add: DocumentProcessor_def)
  then show "clean_content DocumentProcessor ua raw = py_strip (cleaned ua raw)"
    by (rule clean_content_under)
qed

text \<open>The theorem at 500,001 letters \<open>a\<close> and at the short text \<open>" a b "\<close>.\<close>

theorem clean_content_truncation_witness:
  "500000 < length (cleaned latin1_alnum (replicate 500001 97)) \<and>
   \<not> isspace (hd (cleaned latin1_alnum (replicate 500001 97))) \<and>
   clean_content DocumentProcessor latin1_alnum (replicate 500001 97) =
     replicate 500000 97 @ ustr ''... [Content truncated]'' \<and>
   length (clean_content DocumentProcessor latin1_alnum (replicate 500001 97)) = 500023 \<and>
   length (cleaned latin1_alnum (ustr '' a b '')) \<le> 500000 \<and>
   clean_content DocumentProcessor latin1_alnum (ustr '' a b '') = ustr ''a b''"
proof -
  have c: "cleaned latin1_alnum (replicate 500001 97) = replicate 500001 97"
    by (rule cleaned_replicate_a)
  have h: "hd (replicate 500001 (97::nat)) = 97" by simp
  have s: "cleaned latin1_alnum (ustr '' a b '') = ustr '' a b ''"
    by (simp add: cleaned_def re_sub_special_def kept_def is_word_def isalnum_def ascii_alnum_def
        isspace_def ustr_def)
  have p: "py_strip (ustr '' a b '') = ustr ''a b''"
    by (simp add: py_strip_def isspace_def ustr_def)
  show ?thesis
    using clean_content_truncation [of latin1_alnum "replicate 500001 97"]
      clean_content_truncation [of latin1_alnum "ustr '' a b ''"]
    by (simp add: c h s p letter_a length_ustr)
qed

text \<open>
  The claim as stated fails for a space followed by 500,000 letters \<open>a\<close>: the cleaned content
  is longer than the limit, and the result is neither its first 500,000 characters
  followed by \<open>[Content truncated]\<close> nor those followed by \<open>... [Content truncated]\<close>; its
  length is 500,022.
\<close>

theorem clean_content_truncation_counterexample:
  "clean_content DocumentProcessor latin1_alnum (32 # replicate 500000 97) \<noteq>
     take 500000 (cleaned latin1_alnum (32 # replicate 500000 97)) @ ustr ''[Content truncated]'' \<and>
   clean_content DocumentProcessor latin1_alnum (32 # replicate 500000 97) \<noteq>
     take 500000 (cleaned latin1_alnum (32 # replicate 500000 97)) @ ustr ''... [Content truncated]'' \<and>
   500000 < length (cleaned latin1_alnum (32 # replicate 500000 97)) \<and>
   length (clean_content DocumentProcessor latin1_alnum (32 # replicate 500000 97)) = 500022"
proof -
  let ?raw = "32 # replicate 500000 (97::nat)"
  have c: "cleaned latin1_alnum ?raw = ?raw" by (rule cleaned_space_replicate_a)
  have "max_content_length DocumentProcessor < int (length (cleaned latin1_alnum ?raw))"
    by (simp add: c DocumentProcessor_def)
  from clean_content_over [OF _ this]
  have "clean_content DocumentProcessor latin1_alnum ?raw =
          dropWhile isspace (take 500000 ?raw) @ truncation_suffix"
    by (simp add: c DocumentProcessor_def py_slice_to_def)
  moreover have "take 500000 ?raw = 32 # replicate 499999 97" by simp
  moreover have "dropWhile isspace (32 # replicate 499999 97) = replicate 499999 97"
    by (simp add: isspace_def)
  ultimately have out: "clean_content DocumentProcessor latin1_alnum ?raw =
          replicate 499999 97 @ truncation_suffix" by simp
  have len: "length (clean_content DocumentProcessor latin1_alnum ?raw) = 500022"
    by (simp add: out truncation_suffix_simps)
  have "length (take 500000 (cleaned latin1_alnum ?raw) @ ustr ''[Content truncated]'') = 500019"
    by (simp add: c ustr_def)
  moreover have "length (take 500000 (cleaned latin1_alnum ?raw) @ ustr ''... [Content truncated]'') = 500023"
    by (simp add: c ustr_def)
  ultimately show ?thesis using len by (auto simp: c)
qed

lemma has_space_run_Cons:
  "has_space_run (x # xs) \<longleftrightarrow> (xs \<noteq> [] \<and> isspace x \<and> isspace (hd xs)) \<or> has_space_run xs"
  by (cases xs) auto

lemma re_sub_spaces_hd:
  "s \<noteq> [] \<Longrightarrow> re_sub_spaces s \<noteq> [] \<and> (isspace (hd (re_sub_spaces s)) \<longleftrightarrow> isspace (hd s))"
  by (cases s) (auto simp: isspace_def)

lemma re_sub_spaces_no_run: "\<not> has_space_run (re_sub_spaces s)"
proof (induction s rule: re_sub_spaces.induct)
  case 1
  then show ?case by simp
next
  case (2 c cs)
  show ?case
  proof (cases "isspace c")
    case True
    let ?d = "dropWhile isspace cs"
    have "re_sub_spaces ?d = [] \<or> \<not> isspace (hd (re_sub_spaces ?d))"
    proof (cases "?d = []")
      case True
      then show ?thesis by (metis re_sub_spaces.simps(1))
    next
      case False
      then have "\<not> isspace (hd ?d)" by (rule hd_dropWhile)
      with re_sub_spaces_hd [OF False] show ?thesis by simp
    qed
    with True 2(1) show ?thesis by (auto simp: has_space_run_Cons)
  next
    case False
    with 2(2) show ?thesis by (simp add: has_space_run_Cons)
  qed
qed

text \<open>
  Claim C7 (no run of whitespace in the result) does not hold of the code. The first
  substitution leaves no run of whitespace (\<open>re_sub_spaces_no_run\<close>), but the second one
  deletes characters between two spaces: for the input \<open>a & b\<close> the result is \<open>a\<close>, two
  spaces, \<open>b\<close>.
\<close>

theorem clean_content_space_run:
  "clean_content DocumentProcessor ua (ustr ''a & b'') = ustr ''a  b'' \<and>
   has_space_run (clean_content DocumentProcessor ua (ustr ''a & b''))"
  by (simp add: clean_content_def cleaned_def re_sub_special_def kept_def is_word_def isalnum_def
      ascii_alnum_def isspace_def ustr_def DocumentProcessor_def py_strip_def)

section \<open>Outline extraction\<close>

lemma close_section_append:
  "close_section sections cur body = sections @ close_section [] cur body"
  by (simp add: close_section_def split: option.splits)

lemma outline_stripped_dropWhile:
  "outline_stripped (dropWhile (\<lambda>x. \<not> is_heading x) ls) = outline_stripped ls"
  by (induction ls) auto

lemma sections_fold:
  "(case foldl sections_step (sections, cur, body) ls of
      (sections', cur', body') \<Rightarrow> close_section sections' cur' body') =
   close_section sections cur
     (body @ filter (\<lambda>x. py_strip x \<noteq> []) (takeWhile (\<lambda>x. \<not> is_heading x) ls)) @
   filter (\<lambda>s. title s \<noteq> []) (outline_stripped ls)"
proof (induction ls arbitrary: sections cur body)
  case Nil
  then show ?case by simp
next
  case (Cons l ls)
  show ?case
  proof (cases "is_heading l")
    case True
    then have step: "sections_step (sections, cur, body) l =
        (close_section sections cur body, Some (heading_title l), [])"
      by (simp add: sections_step_def is_heading_def heading_title_def)
    have "close_section (close_section sections cur body) (Some (heading_title l))
            (filter (\<lambda>x. py_strip x \<noteq> []) (takeWhile (\<lambda>x. \<not> is_heading x) ls)) =
          close_section sections cur body @
          filter (\<lambda>s. title s \<noteq> [])
            [\<lparr>title = heading_title l,
              content = py_strip (py_join NL (filter (\<lambda>x. py_strip x \<noteq> [])
                                         (takeWhile (\<lambda>x. \<not> is_heading x) ls)))\<rparr>]"
      by (simp add: close_section_def)
    with True step show ?thesis
      using Cons.IH [of "close_section sections cur body" "Some (heading_title l)" "[]"]
      by simp
  next
    case False
    then have step: "sections_step (sections, cur, body) l =
        (sections, cur, body @ filter (\<lambda>x. py_strip x \<noteq> []) [l])"
      by (simp add: sections_step_def is_heading_def)
    with False show ?thesis
      using Cons.IH [of sections cur "body @ filter (\<lambda>x. py_strip x \<noteq> []) [l]"]
      by simp
  qed
qed

lemma extract_key_sections_outline:
  "extract_key_sections text = filter (\<lambda>s. title s \<noteq> []) (outline_stripped (py_split NL text))"
  unfolding extract_key_sections_def sections_fold
  by (simp add: close_section_def)

lemma outline_stripped_titled:
  "\<forall>l \<in> set ls. is_heading l \<longrightarrow> heading_title l \<noteq> [] \<Longrightarrow>
     filter (\<lambda>s. title s \<noteq> []) (outline_stripped ls) = outline_stripped ls"
  by (induction ls) auto

lemma outline_stripped_no_heading:
  "\<forall>l \<in> set ls. \<not> is_heading l \<Longrightarrow> outline_stripped ls = []"
  by (induction ls) auto

lemma length_outline_stripped:
  "length (outline_stripped ls) = length (filter is_heading ls)"
  by (induction ls) auto

text \<open>
  Claim C5 (outline extraction), as amended. When every heading line of the text has a
  non-empty title, the outline has one section per heading line, in order, titled by the
  line without its markers and surrounding whitespace, whose content is the stripped join
  of the following lines that are not blank, up to the next heading. A text without a
  heading line gives the empty outline, and \<open>"# A\nbody1\n# B\nbody2"\<close> gives the sections
  \<open>A\<close>/\<open>body1\<close> and \<open>B\<close>/\<open>body2\<close>.
\<close>

theorem extract_key_sections_headings:
  "((\<forall>l \<in> set (py_split NL text). is_heading l \<longrightarrow> heading_title l \<noteq> []) \<longrightarrow>
      extract_key_sections text = outline_stripped (py_split NL text) \<and>
      length (extract_key_sections text) = length (filter is_heading (py_split NL text))) \<and>
   ((\<forall>l \<in> set (py_split NL text). \<not> is_heading l) \<longrightarrow> extract_key_sections text = []) \<and>
   extract_key_sections (ustr ''# A'' @ NL @ ustr ''body1'' @ NL @ ustr ''# B'' @ NL @ ustr ''body2'') =
     [\<lparr>title = ustr ''A'', content = ustr ''body1''\<rparr>, \<lparr>title = ustr ''B'', content = ustr ''body2''\<rparr>]"
proof (intro conjI impI)
  assume "\<forall>l \<in> set (py_split NL text). is_heading l \<longrightarrow> heading_title l \<noteq> []"
  then show e: "extract_key_sections text = outline_stripped (py_split NL text)"
    by (simp add: extract_key_sections_outline outline_stripped_titled)
  show "length (extract_key_sections text) = length (filter is_heading (py_split NL text))"
    by (simp add: e length_outline_stripped)
next
  assume "\<forall>l \<in> set (py_split NL text). \<not> is_heading l"
  then show "extract_key_sections text = []"
    by (simp add: extract_key_sections_outline outline_stripped_no_heading)
next
  show "extract_key_sections (ustr ''# A'' @ NL @ ustr ''body1'' @ NL @ ustr ''# B'' @ NL @ ustr ''body2'') =
     [\<lparr>title = ustr ''A'', content = ustr ''body1''\<rparr>, \<lparr>title = ustr ''B'', content = ustr ''body2''\<rparr>]"
    by (simp add: extract_key_sections_def sections_step_def close_section_def py_split_def
        startswith_def py_strip_def py_lstrip_char_def isspace_def ustr_def NL_def)
qed

theorem extract_key_sections_headings_witness:
  "extract_key_sections (ustr ''# A'' @ NL @ ustr ''body1'' @ NL @ ustr ''# B'' @ NL @ ustr ''body2'') =
     outline_stripped (py_split NL (ustr ''# A'' @ NL @ ustr ''body1'' @ NL @ ustr ''# B'' @ NL @ ustr ''body2'')) \<and>
   length (extract_key_sections (ustr ''# A'' @ NL @ ustr ''body1'' @ NL @ ustr ''# B'' @ NL @ ustr ''body2'')) = 2 \<and>
   extract_key_sections (ustr ''plain'' @ NL @ ustr ''prose'') = []"
proof -
  let ?t1 = "ustr ''# A'' @ NL @ ustr ''body1'' @ NL @ ustr ''# B'' @ NL @ ustr ''body2''"
  let ?t2 = "ustr ''plain'' @ NL @ ustr ''prose''"
  have h1: "\<forall>l \<in> set (py_split NL ?t1). is_heading l \<longrightarrow> heading_title l \<noteq> []"
    by (simp add: extract_key_sections_def sections_step_def close_section_def py_split_def
        startswith_def py_strip_def py_lstrip_char_def isspace_def ustr_def NL_def is_heading_def
        heading_title_def)
  have h2: "\<forall>l \<in> set (py_split NL ?t2). \<not> is_heading l"
    by (simp add: extract_key_sections_def sections_step_def close_section_def py_split_def
        startswith_def py_strip_def py_lstrip_char_def isspace_def ustr_def NL_def is_heading_def
        heading_title_def)
  have n: "length (filter is_heading (py_split NL ?t1)) = 2"
    by (simp add: extract_key_sections_def sections_step_def close_section_def py_split_def
        startswith_def py_strip_def py_lstrip_char_def isspace_def ustr_def NL_def is_heading_def
        heading_title_def)
  from extract_key_sections_headings [of ?t1] h1
  have a: "extract_key_sections ?t1 = outline_stripped (py_split NL ?t1)"
    and b: "length (extract_key_sections ?t1) = length (filter is_heading (py_split NL ?t1))"
    by blast+
  from extract_key_sections_headings [of ?t2] h2
  have c: "extract_key_sections ?t2 = []" by blast
  from a b c n show ?thesis by (simp only:)
qed

text \<open>
  The claim as stated fails for \<open>"#\n# A\n body\n \nend"\<close>: there are two heading lines
  and one section, and its content is \<open>"body\nend"\<close>, not the join of the non-empty lines
  \<open>" body"\<close>, \<open>" "\<close> and \<open>"end"\<close>.
\<close>

theorem extract_key_sections_headings_counterexample:
  "extract_key_sections
     (ustr ''#'' @ NL @ ustr ''# A'' @ NL @ ustr '' body'' @ NL @ ustr '' '' @ NL @ ustr ''end'') =
     [\<lparr>title = ustr ''A'', content = ustr ''body'' @ NL @ ustr ''end''\<rparr>] \<and>
   outline_as_stated (py_split NL
     (ustr ''#'' @ NL @ ustr ''# A'' @ NL @ ustr '' body'' @ NL @ ustr '' '' @ NL @ ustr ''end'')) =
     [\<lparr>title = [], content = []\<rparr>,
      \<lparr>title = ustr ''A'', content = ustr '' body'' @ NL @ ustr '' '' @ NL @ ustr ''end''\<rparr>] \<and>
   length (filter is_heading (py_split NL
     (ustr ''#'' @ NL @ ustr ''# A'' @ NL @ ustr '' body'' @ NL @ ustr '' '' @ NL @ ustr ''end''))) = 2 \<and>
   extract_key_sections
     (ustr ''#'' @ NL @ ustr ''# A'' @ NL @ ustr '' body'' @ NL @ ustr '' '' @ NL @ ustr ''end'') \<noteq>
   outline_as_stated (py_split NL
     (ustr ''#'' @ NL @ ustr ''# A'' @ NL @ ustr '' body'' @ NL @ ustr '' '' @ NL @ ustr ''end''))"
  by (simp add: extract_key_sections_def sections_step_def close_section_def py_split_def
        startswith_def py_strip_def py_lstrip_char_def isspace_def ustr_def NL_def is_heading_def
        heading_title_def)

section \<open>The prompts and the operations\<close>

text \<open>
  Claim C8 (prompt truncation limits). The summary prompt embeds exactly the first
  \<open>min (length, 50000)\<close> characters of the content, and the extraction prompt and each
  question prompt exactly the first \<open>min (length, 30000)\<close>; the embedded part is a prefix
  of the content and has that length.
\<close>

theorem prompt_truncation_limits:
  "create_summary_prompt doc include_details =
     base_prompt @ NL @ take (min (length doc) 50000) doc @ NLNL @
     (if include_details then detail_instructions else concise_instructions) \<and>
   extraction_prompt doc =
     extraction_prompt_head @ take (min (length doc) 30000) doc @ extraction_prompt_tail \<and>
   question_prompt doc question =
     question_prompt_head @ take (min (length doc) 30000) doc @ question_prompt_mid @ question @
     question_prompt_tail \<and>
   take (min (length doc) 50000) doc @ drop 50000 doc = doc \<and>
   length (take (min (length doc) 50000) doc) = min (length doc) 50000 \<and>
   take (min (length doc) 30000) doc @ drop 30000 doc = doc \<and>
   length (take (min (length doc) 30000) doc) = min (length doc) 30000"
  by (simp add: create_summary_prompt_def extraction_prompt_def question_prompt_def
      py_slice_to_def min_def)

lemma summarize_request_first_call:
  assumes "process_document file_path \<noteq> []"
  shows "\<exists>rest. snd (summarize_request process_document client json_loads cfg self file_path
                      details key_info calls) =
           calls @ \<lparr>req_model = model self,
                     message = create_summary_prompt (process_document file_path) details,
                     temperature = cfg_temperature cfg, max_tokens = cfg_max_tokens cfg\<rparr> # rest"
  using assms
  by (auto simp: summarize_request_def process_white_paper_def generate_summary_def
      extract_key_information_def client_chat_def Let_def
      split: sum.splits loads_outcome.splits)

text \<open>
  Claim C6 (empty extraction is fatal). \<open>process_white_paper\<close> raises exactly when the
  extraction gives the empty text, with a \<open>ValueError\<close> whose message names the file;
  otherwise it returns the extracted text unchanged, and the first call of the request to
  the model is the summary prompt of that text. On empty extraction the request ends with
  the error and no call to the model; a request that calls the model had non-empty content.
\<close>

theorem process_white_paper_empty:
  "(process_document file_path = [] \<longrightarrow>
      process_white_paper process_document file_path =
        Inl (ValueError (ustr ''Could not extract content from '' @ file_path)) \<and>
      summarize_request process_document client json_loads cfg self file_path details key_info calls =
        (Inl (ValueError (ustr ''Could not extract content from '' @ file_path)), calls)) \<and>
   (process_document file_path \<noteq> [] \<longrightarrow>
      process_white_paper process_document file_path = Inr (process_document file_path) \<and>
      (\<exists>rest. snd (summarize_request process_document client json_loads cfg self file_path
                     details key_info calls) =
         calls @ \<lparr>req_model = model self,
                   message = create_summary_prompt (process_document file_path) details,
                   temperature = cfg_temperature cfg, max_tokens = cfg_max_tokens cfg\<rparr> # rest)) \<and>
   ((\<exists>e. process_white_paper process_document file_path = Inl e) \<longleftrightarrow>
      process_document file_path = []) \<and>
   (snd (summarize_request process_document client json_loads cfg self file_path details key_info calls)
      \<noteq> calls \<longrightarrow> process_document file_path \<noteq> [])"
proof (intro conjI impI)
  assume e: "process_document file_path = []"
  then show "process_white_paper process_document file_path =
        Inl (ValueError (ustr ''Could not extract content from '' @ file_path))"
    by (simp add: process_white_paper_def)
  then show "summarize_request process_document client json_loads cfg self file_path details
        key_info calls =
        (Inl (ValueError (ustr ''Could not extract content from '' @ file_path)), calls)"
    by (simp add: summarize_request_def)
next
  assume "process_document file_path \<noteq> []"
  then show "process_white_paper process_document file_path = Inr (process_document file_path)"
    by (simp add: process_white_paper_def)
next
  assume "process_document file_path \<noteq> []"
  then show "\<exists>rest. snd (summarize_request process_document client json_loads cfg self file_path
                     details key_info calls) =
         calls @ \<lparr>req_model = model self,
                   message = create_summary_prompt (process_document file_path) details,
                   temperature = cfg_temperature cfg, max_tokens = cfg_max_tokens cfg\<rparr> # rest"
    by (rule summarize_request_first_call)
next
  show "(\<exists>e. process_white_paper process_document file_path = Inl e) \<longleftrightarrow>
      process_document file_path = []"
    by (auto simp: process_white_paper_def Let_def)
next
  assume "snd (summarize_request process_document client json_loads cfg self file_path details
        key_info calls) \<noteq> calls"
  then show "process_document file_path \<noteq> []"
    by (auto simp: summarize_request_def process_white_paper_def)
qed

theorem process_white_paper_empty_witness:
  "process_white_paper (\<lambda>p. []) (ustr ''temp_paper.xyz'') =
     Inl (ValueError (ustr ''Could not extract content from temp_paper.xyz'')) \<and>
   summarize_request (\<lambda>p. []) (canned_client (ustr ''# A'')) standin_loads default_llm_config
       (CohereCompassRAG default_llm_config) (ustr ''temp_paper.xyz'') True True [] =
     (Inl (ValueError (ustr ''Could not extract content from temp_paper.xyz'')), []) \<and>
   process_white_paper (\<lambda>p. ustr ''Some text.'') (ustr ''temp_paper.txt'') = Inr (ustr ''Some text.'')"
proof -
  let ?rag = "CohereCompassRAG default_llm_config"
  have e: "(\<lambda>p::pystr. []::pystr) (ustr ''temp_paper.xyz'') = []" by simp
  have ne: "(\<lambda>p::pystr. ustr ''Some text.'') (ustr ''temp_paper.txt'') \<noteq> []"
    by (simp add: ustr_def)
  have m: "ustr ''Could not extract content from '' @ ustr ''temp_paper.xyz'' =
           ustr ''Could not extract content from temp_paper.xyz''"
    by (simp add: ustr_def)
  from process_white_paper_empty
         [of "\<lambda>p. []" "ustr ''temp_paper.xyz''" "canned_client (ustr ''# A'')" standin_loads
             default_llm_config ?rag True True "[]"] e
  have a: "process_white_paper (\<lambda>p. []) (ustr ''temp_paper.xyz'') =
        Inl (ValueError (ustr ''Could not extract content from '' @ ustr ''temp_paper.xyz''))"
    and b: "summarize_request (\<lambda>p. []) (canned_client (ustr ''# A'')) standin_loads default_llm_config
       ?rag (ustr ''temp_paper.xyz'') True True [] =
        (Inl (ValueError (ustr ''Could not extract content from '' @ ustr ''temp_paper.xyz'')), [])"
    by blast+
  from process_white_paper_empty
         [of "\<lambda>p. ustr ''Some text.''" "ustr ''temp_paper.txt''" "canned_client (ustr ''# A'')"
             standin_loads default_llm_config ?rag True True "[]"] ne
  have c: "process_white_paper (\<lambda>p. ustr ''Some text.'') (ustr ''temp_paper.txt'') =
             Inr (ustr ''Some text.'')"
    by blast
  from a b c show ?thesis unfolding m by blast
qed

text \<open>
  Claim C2 (structured extraction never propagates a parse error) does not hold of the
  code. When the client answers with a text, the operation returns the parsed value when
  the parser returns one, and the dictionary with the single key \<open>raw_response\<close> holding the
  whole text when the parser raises \<open>JSONDecodeError\<close>; but any other exception of the
  parser is raised by the operation.
\<close>

theorem extract_key_information_outcomes:
  assumes "client calls \<lparr>req_model = model self, message = extraction_prompt doc,
             temperature = 0.1, max_tokens = 3000\<rparr> = Inr text"
  shows "(\<forall>parsed. json_loads text = Loaded parsed \<longrightarrow>
            fst (extract_key_information client json_loads self doc calls) = Inr parsed) \<and>
         (json_loads text = JSONDecodeError \<longrightarrow>
            fst (extract_key_information client json_loads self doc calls) =
              Inr (JObject [(ustr ''raw_response'', JString text)])) \<and>
         (\<forall>e. json_loads text = LoadsError e \<longrightarrow>
            fst (extract_key_information client json_loads self doc calls) = Inl e)"
  using assms
  by (auto simp: extract_key_information_def client_chat_def raw_response_def)

text \<open>
  The three outcomes: the response \<open>null\<close>, a response in plain prose, and a response of
  3000 opening brackets, on which the parser raises \<open>RecursionError\<close>.
\<close>

theorem extract_key_information_outcomes_witness:
  "fst (extract_key_information (canned_client (ustr ''null'')) standin_loads
          (CohereCompassRAG default_llm_config) (ustr ''Some text.'') []) = Inr JNull \<and>
   fst (extract_key_information (canned_client (ustr ''plain prose'')) standin_loads
          (CohereCompassRAG default_llm_config) (ustr ''Some text.'') []) =
     Inr (JObject [(ustr ''raw_response'', JString (ustr ''plain prose''))]) \<and>
   fst (extract_key_information (canned_client (replicate 3000 91)) standin_loads
          (CohereCompassRAG default_llm_config) (ustr ''Some text.'') []) =
     Inl (RecursionError (ustr
       ''maximum recursion depth exceeded while decoding a JSON array from a unicode string''))"
proof -
  let ?rag = "CohereCompassRAG default_llm_config"
  let ?req = "\<lparr>req_model = model ?rag, message = extraction_prompt (ustr ''Some text.''),
                temperature = 0.1, max_tokens = 3000\<rparr>"
  let ?deep = "replicate 3000 (91::nat)"
  have c1: "canned_client (ustr ''null'') [] ?req = Inr (ustr ''null'')"
    by (simp add: canned_client_def)
  have c2: "canned_client (ustr ''plain prose'') [] ?req = Inr (ustr ''plain prose'')"
    by (simp add: canned_client_def)
  have c3: "canned_client ?deep [] ?req = Inr ?deep"
    by (simp add: canned_client_def)
  have p1: "standin_loads (ustr ''null'') = Loaded JNull"
    by (simp add: standin_loads_def)
  have p2: "standin_loads (ustr ''plain prose'') = JSONDecodeError"
    by (simp add: standin_loads_def ustr_def)
  have "?deep \<noteq> ustr ''null''"
  proof
    assume "?deep = ustr ''null''"
    then have "length ?deep = length (ustr ''null'')" by (rule arg_cong)
    then show False by (simp add: ustr_def)
  qed
  then have p3: "standin_loads ?deep = LoadsError (RecursionError (ustr
       ''maximum recursion depth exceeded while decoding a JSON array from a unicode string''))"
    by (simp add: standin_loads_def list_all_iff)
  from extract_key_information_outcomes
         [of "canned_client (ustr ''null'')" "[]" ?rag "ustr ''Some text.''" "ustr ''null''"
             standin_loads] c1 p1
  have a: "fst (extract_key_information (canned_client (ustr ''null'')) standin_loads ?rag
             (ustr ''Some text.'') []) = Inr JNull"
    by blast
  from extract_key_information_outcomes
         [of "canned_client (ustr ''plain prose'')" "[]" ?rag "ustr ''Some text.''"
             "ustr ''plain prose''" standin_loads] c2 p2
  have b: "fst (extract_key_information (canned_client (ustr ''plain prose'')) standin_loads ?rag
             (ustr ''Some text.'') []) =
           Inr (JObject [(ustr ''raw_response'', JString (ustr ''plain prose''))])"
    by blast
  from extract_key_information_outcomes
         [of "canned_client ?deep" "[]" ?rag "ustr ''Some text.''" ?deep standin_loads] c3 p3
  have c: "fst (extract_key_information (canned_client ?deep) standin_loads ?rag
             (ustr ''Some text.'') []) =
           Inl (RecursionError (ustr
       ''maximum recursion depth exceeded while decoding a JSON array from a unicode string''))"
    by blast
  from a b c show ?thesis by blast
qed

lemma answer_loop_Inr:
  "answer_loop client self doc questions answers calls = (Inr result, calls') \<Longrightarrow>
     dom result = dom answers \<union> set questions \<and>
     calls' = calls @ map (question_request self doc) questions"
proof (induction questions arbitrary: answers calls)
  case Nil
  then show ?case by simp
next
  case (Cons q qs)
  from Cons.prems obtain resp where
    t: "client calls (question_request self doc q) = Inr resp" and
    r: "answer_loop client self doc qs (answers(q \<mapsto> resp))
          (calls @ [question_request self doc q]) = (Inr result, calls')"
    by (auto simp: client_chat_def split: sum.splits)
  from Cons.IH [OF r] show ?case by auto
qed

lemma answer_loop_answers:
  "answer_loop client self doc questions answers calls = (Inr result, calls') \<Longrightarrow>
     \<forall>q t. answers q = Some t \<longrightarrow> (\<exists>cs. client cs (question_request self doc q) = Inr t) \<Longrightarrow>
     \<forall>q t. result q = Some t \<longrightarrow> (\<exists>cs. client cs (question_request self doc q) = Inr t)"
proof (induction questions arbitrary: answers calls)
  case Nil
  then show ?case by simp
next
  case (Cons q qs)
  from Cons.prems(1) obtain resp where
    t: "client calls (question_request self doc q) = Inr resp" and
    r: "answer_loop client self doc qs (answers(q \<mapsto> resp))
          (calls @ [question_request self doc q]) = (Inr result, calls')"
    by (auto simp: client_chat_def split: sum.splits)
  from t Cons.prems(2)
  have "\<forall>q' t. (answers(q \<mapsto> resp)) q' = Some t \<longrightarrow>
          (\<exists>cs. client cs (question_request self doc q') = Inr t)"
    by auto
  from Cons.IH [OF r this] show ?case .
qed

lemma answer_loop_total:
  "\<forall>cs rq. \<exists>t. client cs rq = Inr t \<Longrightarrow>
     \<exists>result. fst (answer_loop client self doc questions answers calls) = Inr result"
proof (induction questions arbitrary: answers calls)
  case Nil
  then show ?case by simp
next
  case (Cons q qs)
  from Cons.prems obtain resp where
    t: "client calls (question_request self doc q) = Inr resp" by blast
  with Cons.IH [OF Cons.prems] show ?case by (simp add: client_chat_def)
qed

text \<open>
  Claim C9 (question answering). For the empty list of questions the result is the empty
  dictionary, with no call to the model. When the operation returns, the dictionary has an
  entry for every question, each entry is an answer of the client to the prompt of its
  question, and the calls made are the question prompts in the order of the questions,
  one per question. It returns whenever the client answers every call.
\<close>

theorem answer_questions_ordered:
  "answer_questions client self doc [] calls = (Inr Map.empty, calls) \<and>
   (\<forall>answers calls'. answer_questions client self doc questions calls = (Inr answers, calls') \<longrightarrow>
      dom answers = set questions \<and>
      calls' = calls @ map (question_request self doc) questions \<and>
      (\<forall>q t. answers q = Some t \<longrightarrow> (\<exists>cs. client cs (question_request self doc q) = Inr t))) \<and>
   ((\<forall>cs rq. \<exists>t. client cs rq = Inr t) \<longrightarrow>
      (\<exists>answers. fst (answer_questions client self doc questions calls) = Inr answers))"
proof (intro conjI allI impI)
  show "answer_questions client self doc [] calls = (Inr Map.empty, calls)"
    by (simp add: answer_questions_def)
next
  fix answers calls'
  assume "answer_questions client self doc questions calls = (Inr answers, calls')"
  then have r: "answer_loop client self doc questions Map.empty calls = (Inr answers, calls')"
    by (simp add: answer_questions_def)
  from answer_loop_Inr [OF r]
  show "dom answers = set questions" and "calls' = calls @ map (question_request self doc) questions"
    by simp_all
  fix q t
  assume "answers q = Some t"
  with answer_loop_answers [OF r] show "\<exists>cs. client cs (question_request self doc q) = Inr t"
    by simp
next
  assume "\<forall>cs rq. \<exists>t. client cs rq = Inr t"
  from answer_loop_total [OF this, of self doc questions Map.empty calls]
  show "\<exists>answers. fst (answer_questions client self doc questions calls) = Inr answers"
    by (simp add: answer_questions_def)
qed

theorem answer_questions_ordered_witness:
  "\<exists>answers calls'.
     answer_questions (canned_client (ustr ''yes'')) (CohereCompassRAG default_llm_config)
       (ustr ''Some text.'') [ustr ''Q1?'', ustr ''Q2?''] [] = (Inr answers, calls') \<and>
     dom answers = {ustr ''Q1?'', ustr ''Q2?''} \<and>
     calls' = [question_request (CohereCompassRAG default_llm_config) (ustr ''Some text.'') (ustr ''Q1?''),
               question_request (CohereCompassRAG default_llm_config) (ustr ''Some text.'') (ustr ''Q2?'')]"
proof -
  let ?rag = "CohereCompassRAG default_llm_config"
  let ?c = "canned_client (ustr ''yes'')"
  let ?qs = "[ustr ''Q1?'', ustr ''Q2?'']"
  note inst = answer_questions_ordered [of ?c ?rag "ustr ''Some text.''" "[]" ?qs]
  have tot: "\<forall>cs rq. \<exists>t. ?c cs rq = Inr t" by (simp add: canned_client_def)
  with inst obtain answers where
    "fst (answer_questions ?c ?rag (ustr ''Some text.'') ?qs []) = Inr answers" by blast
  then obtain calls' where
    r: "answer_questions ?c ?rag (ustr ''Some text.'') ?qs [] = (Inr answers, calls')"
    by (cases "answer_questions ?c ?rag (ustr ''Some text.'') ?qs []") simp
  with inst have "dom answers = set ?qs \<and>
      calls' = [] @ map (question_request ?rag (ustr ''Some text.'')) ?qs" by blast
  with r show ?thesis by simp
qed

end
